theory Spec2Isabelle
  imports Main "HOL-Library.Word" "HOL-Library.List_Lexorder"
begin

section \<open>Text: Python strings as lists of code points\<close>

text \<open>
  A Python \<^verbatim>\<open>str\<close> is a sequence of Unicode code points, and \<^verbatim>\<open>len\<close>, slicing,
  \<^verbatim>\<open>strip\<close> and the regular expressions of \<^verbatim>\<open>cnki_parser.py\<close> all count code points.
  A string is therefore a list of natural numbers here; \<open>u\<close> turns an ASCII literal
  into such a list.
\<close>

type_synonym ustr = "nat list"

definition u :: "string \<Rightarrow> ustr" where
  "u s = map of_char s"

text \<open>
  \<^verbatim>\<open>str.strip()\<close>, \<^verbatim>\<open>str.isspace()\<close> and the class \<^verbatim>\<open>\s\<close> of a \<^verbatim>\<open>str\<close>
  pattern share one table of white space (CPython's \<^verbatim>\<open>Py_UNICODE_ISSPACE\<close>).
\<close>

definition is_space :: "nat \<Rightarrow> bool" where
  "is_space c \<longleftrightarrow>
     (0x09 \<le> c \<and> c \<le> 0x0D) \<or> (0x1C \<le> c \<and> c \<le> 0x20) \<or> c = 0x85 \<or> c = 0xA0 \<or>
     c = 0x1680 \<or> (0x2000 \<le> c \<and> c \<le> 0x200A) \<or> c = 0x2028 \<or> c = 0x2029 \<or>
     c = 0x202F \<or> c = 0x205F \<or> c = 0x3000"

definition strip :: "ustr \<Rightarrow> ustr" where
  "strip s = rev (dropWhile is_space (rev (dropWhile is_space s)))"

definition startswith :: "ustr \<Rightarrow> ustr \<Rightarrow> bool" where
  "startswith s p \<longleftrightarrow> take (length p) s = p"

text \<open>
  \<^verbatim>\<open>s.split(sep)\<close> for a one-character separator, and \<^verbatim>\<open>re.split\<close> for a character
  class: the pieces between the separators, empty pieces included, so the result is
  never the empty list (\<^verbatim>\<open>''.split(';') == ['']\<close>, \<^verbatim>\<open>'a;b;'.split(';') == ['a','b','']\<close>).
\<close>

fun split_on :: "(nat \<Rightarrow> bool) \<Rightarrow> ustr \<Rightarrow> ustr list" where
  "split_on d [] = [[]]"
| "split_on d (c # cs) =
     (if d c then [] # split_on d cs
      else (case split_on d cs of [] \<Rightarrow> [[c]] | seg # segs \<Rightarrow> (c # seg) # segs))"


text \<open>
  The class \<^verbatim>\<open>\d\<close> of a \<^verbatim>\<open>str\<close> pattern is the Unicode category Nd, and \<^verbatim>\<open>int\<close>
  reads every such digit. The category is a union of runs of ten consecutive code points
  with the values 0 to 9; \<open>nd_starts\<close> lists where the runs begin (Unicode 14.0, the
  table of CPython 3.11).
\<close>

definition nd_starts :: "nat list" where
  "nd_starts =
    [0x30, 0x660, 0x6F0, 0x7C0, 0x966, 0x9E6, 0xA66, 0xAE6, 0xB66, 0xBE6, 0xC66, 0xCE6,
     0xD66, 0xDE6, 0xE50, 0xED0, 0xF20, 0x1040, 0x1090, 0x17E0, 0x1810, 0x1946, 0x19D0,
     0x1A80, 0x1A90, 0x1B50, 0x1BB0, 0x1C40, 0x1C50, 0xA620, 0xA8D0, 0xA900, 0xA9D0,
     0xA9F0, 0xAA50, 0xABF0, 0xFF10, 0x104A0, 0x10D30, 0x11066, 0x110F0, 0x11136,
     0x111D0, 0x112F0, 0x11450, 0x114D0, 0x11650, 0x116C0, 0x11730, 0x118E0, 0x11950,
     0x11C50, 0x11D50, 0x11DA0, 0x16A60, 0x16AC0, 0x16B50, 0x1D7CE, 0x1D7D8, 0x1D7E2,
     0x1D7EC, 0x1D7F6, 0x1E140, 0x1E2F0, 0x1E950, 0x1FBF0]"

definition decimal_value :: "nat \<Rightarrow> nat option" where
  "decimal_value c =
     (case find (\<lambda>s. s \<le> c \<and> c < s + 10) nd_starts of
        None \<Rightarrow> None
      | Some s \<Rightarrow> Some (c - s))"

definition is_decimal :: "nat \<Rightarrow> bool" where
  "is_decimal c \<longleftrightarrow> decimal_value c \<noteq> None"

section \<open>Errors\<close>

datatype error = FileNotFoundError | UnicodeDecodeError | ValueError | KeyError

text \<open>
  \<^verbatim>\<open>int(s)\<close> on the strings the parser's patterns hand it, which are non-empty runs of
  decimal digits: the value in base ten, unless the run is longer than the interpreter's
  limit for the conversion (\<^verbatim>\<open>sys.int_info.default_max_str_digits\<close>, 4300 since
  CPython 3.11 and the security releases of 3.7 to 3.10), when \<^verbatim>\<open>int\<close> raises
  \<^verbatim>\<open>ValueError\<close>. Leading zeros count towards the limit.
\<close>

definition int_max_str_digits :: nat where
  "int_max_str_digits = 4300"

definition digits_value :: "ustr \<Rightarrow> int" where
  "digits_value s = foldl (\<lambda>a c. 10 * a + int (case decimal_value c of None \<Rightarrow> 0 | Some d \<Rightarrow> d)) 0 s"

definition py_int :: "ustr \<Rightarrow> error + int" where
  "py_int s =
     (if s = [] \<or> \<not> list_all is_decimal s then Inl ValueError
      else if int_max_str_digits < length s then Inl ValueError
      else Inr (digits_value s))"

section \<open>The record parser (\<^verbatim>\<open>cnki_parser.py\<close>)\<close>

record CnkiPaper =
  title :: ustr
  authors :: "ustr list"
  institution :: ustr
  all_institutions :: "ustr list"
  journal :: ustr
  year :: int
  volume :: ustr
  issue :: ustr
  pages :: ustr
  "keywords" :: "ustr list"
  abstract :: ustr
  doi :: ustr
  url :: ustr
  issn :: ustr
  cn_code :: ustr
  citations :: int
  downloads :: int
  cnki_id :: "ustr option"

text \<open>
  \<^verbatim>\<open>CnkiPaper()\<close>: every field at its default. \<open>cnki_id\<close> is not a field of the
  dataclass; \<^verbatim>\<open>_parse_record\<close> attaches it to the object at a \<^verbatim>\<open>%W\<close> line, so it is
  absent (\<open>None\<close>) until then.
\<close>

definition new_paper :: CnkiPaper where
  "new_paper =
     \<lparr>title = [], authors = [], institution = [], all_institutions = [], journal = [],
      year = 0, volume = [], issue = [], pages = [], keywords = [], abstract = [],
      doi = [], url = [], issn = [], cn_code = [], citations = 0, downloads = 0,
      cnki_id = None\<rparr>"

text \<open>
  \<^verbatim>\<open>re.search(r'(19|20)\d{2}', value)\<close>: the leftmost position where the four
  characters match, and the four characters.
\<close>

definition year_at :: "ustr \<Rightarrow> bool" where
  "year_at s =
     (case s of
        a # b # c # d # _ \<Rightarrow>
          ((a = 0x31 \<and> b = 0x39) \<or> (a = 0x32 \<and> b = 0x30)) \<and> is_decimal c \<and> is_decimal d
      | _ \<Rightarrow> False)"

fun search_year :: "ustr \<Rightarrow> ustr option" where
  "search_year [] = None"
| "search_year (c # cs) =
     (if year_at (c # cs) then Some (take 4 (c # cs)) else search_year cs)"

text \<open>
  The two searches of the \<^verbatim>\<open>%Z\<close> line and their group 1. Each pattern is a label of
  two characters (U+88AB U+5F15 for the citations, U+4E0B U+8F7D for the downloads), an
  optional colon, ASCII or full-width (U+FF1A), then \<^verbatim>\<open>\s*(\d+)\<close>. Labels, colons,
  white space and digits are disjoint classes, so at a position the greedy match is the
  only one: the label, at most one colon, all white space, then the longest run of
  digits, which must not be empty.
\<close>

definition cited_label :: ustr where
  "cited_label = [0x88AB, 0x5F15]"

definition download_label :: ustr where
  "download_label = [0x4E0B, 0x8F7D]"

definition count_at :: "ustr \<Rightarrow> ustr \<Rightarrow> ustr option" where
  "count_at label s =
     (if startswith s label then
        let r1 = drop (length label) s;
            r2 = (case r1 of [] \<Rightarrow> r1 | c # r \<Rightarrow> if c = 0x3A \<or> c = 0xFF1A then r else r1);
            r3 = dropWhile is_space r2;
            d = takeWhile is_decimal r3
        in if d = [] then None else Some d
      else None)"

fun search_count :: "ustr \<Rightarrow> ustr \<Rightarrow> ustr option" where
  "search_count label [] = None"
| "search_count label (c # cs) =
     (case count_at label (c # cs) of
        Some d \<Rightarrow> Some d
      | None \<Rightarrow> search_count label cs)"

text \<open>The delimiters of the keyword line: \<^verbatim>\<open>;\<close> and \<^verbatim>\<open>,\<close>, ASCII and full-width.\<close>

definition keyword_delimiter :: "nat \<Rightarrow> bool" where
  "keyword_delimiter c \<longleftrightarrow> c = 0x3B \<or> c = 0xFF1B \<or> c = 0x2C \<or> c = 0xFF0C"

text \<open>
  One turn of the loop of \<^verbatim>\<open>_parse_record\<close> over the lines of a block: the tests
  that skip a line, and in \<open>set_field\<close> the chain of comparisons with the markers.
\<close>

definition set_field :: "CnkiPaper \<Rightarrow> ustr \<Rightarrow> ustr \<Rightarrow> error + CnkiPaper" where
  "set_field paper marker value =
      (if marker = u ''%T'' then Inr (paper\<lparr>title := value\<rparr>)
       else if marker = u ''%A'' then
         (if value \<noteq> [] then Inr (paper\<lparr>authors := authors paper @ [value]\<rparr>) else Inr paper)
       else if marker = u ''%+'' then
         (if value \<noteq> [] then
            let institutions = [strip i. i \<leftarrow> split_on (\<lambda>c. c = 0x3B) value, strip i \<noteq> []]
            in Inr (paper\<lparr>all_institutions := institutions,
                           institution := (case institutions of [] \<Rightarrow> [] | i # _ \<Rightarrow> i)\<rparr>)
          else Inr paper)
       else if marker = u ''%J'' then Inr (paper\<lparr>journal := value\<rparr>)
       else if marker = u ''%D'' then
         (case search_year value of
            None \<Rightarrow> Inr paper
          | Some m \<Rightarrow> (case py_int m of Inl e \<Rightarrow> Inl e | Inr y \<Rightarrow> Inr (paper\<lparr>year := y\<rparr>)))
       else if marker = u ''%V'' then Inr (paper\<lparr>volume := value\<rparr>)
       else if marker = u ''%N'' then Inr (paper\<lparr>issue := value\<rparr>)
       else if marker = u ''%P'' then Inr (paper\<lparr>pages := value\<rparr>)
       else if marker = u ''%K'' then
         (if value \<noteq> [] then
            Inr (paper\<lparr>keywords := [strip k. k \<leftarrow> split_on keyword_delimiter value, strip k \<noteq> []]\<rparr>)
          else Inr paper)
       else if marker = u ''%X'' then Inr (paper\<lparr>abstract := value\<rparr>)
       else if marker = u ''%R'' then Inr (paper\<lparr>doi := value\<rparr>)
       else if marker = u ''%@'' then Inr (paper\<lparr>issn := value\<rparr>)
       else if marker = u ''%L'' then Inr (paper\<lparr>cn_code := value\<rparr>)
       else if marker = u ''%U'' then Inr (paper\<lparr>url := value\<rparr>)
       else if marker = u ''%W'' then Inr (paper\<lparr>cnki_id := Some value\<rparr>)
       else if marker = u ''%Z'' then
         (case (case search_count cited_label value of
                  None \<Rightarrow> Inr paper
                | Some d \<Rightarrow>
                    (case py_int d of Inl e \<Rightarrow> Inl e | Inr n \<Rightarrow> Inr (paper\<lparr>citations := n\<rparr>))) of
            Inl e \<Rightarrow> Inl e
          | Inr paper1 \<Rightarrow>
              (case search_count download_label value of
                 None \<Rightarrow> Inr paper1
               | Some d \<Rightarrow>
                   (case py_int d of Inl e \<Rightarrow> Inl e | Inr n \<Rightarrow> Inr (paper1\<lparr>downloads := n\<rparr>))))
       else Inr paper)"

definition parse_line :: "CnkiPaper \<Rightarrow> ustr \<Rightarrow> error + CnkiPaper" where
  "parse_line paper raw =
    (let line = strip raw in
     if line = [] \<or> \<not> startswith line (u ''%'') then Inr paper
     else if length line < 2 then Inr paper
     else set_field paper (take 2 line) (strip (drop 2 line)))"

fun parse_lines :: "CnkiPaper \<Rightarrow> ustr list \<Rightarrow> error + CnkiPaper" where
  "parse_lines paper [] = Inr paper"
| "parse_lines paper (l # ls) =
     (case parse_line paper l of Inl e \<Rightarrow> Inl e | Inr paper1 \<Rightarrow> parse_lines paper1 ls)"

text \<open>\<^verbatim>\<open>_parse_record\<close>: a fresh paper, updated by the lines of the block in order.\<close>

definition parse_record :: "ustr \<Rightarrow> error + CnkiPaper" where
  "parse_record block = parse_lines new_paper (split_on (\<lambda>c. c = 0x0A) (strip block))"

text \<open>
  \<^verbatim>\<open>re.split(r'(?=%0\s)', content)\<close>: the pattern matches the empty string at every
  position where \<^verbatim>\<open>%0\<close> and a white-space character follow, and (Python 3.7 and later)
  the text is cut at each of them, also at position 0, where the first piece is empty.
  \<open>pieces\<close> cuts at the matches after position 0.
\<close>

definition at_record_start :: "ustr \<Rightarrow> bool" where
  "at_record_start s =
     (case s of a # b # c # _ \<Rightarrow> a = 0x25 \<and> b = 0x30 \<and> is_space c | _ \<Rightarrow> False)"

fun pieces :: "ustr \<Rightarrow> ustr list" where
  "pieces [] = [[]]"
| "pieces (c # cs) =
     (if at_record_start cs then [c] # pieces cs
      else (case pieces cs of [] \<Rightarrow> [[c]] | seg # segs \<Rightarrow> (c # seg) # segs))"

definition re_split :: "ustr \<Rightarrow> ustr list" where
  "re_split content = (if at_record_start content then [] # pieces content else pieces content)"

text \<open>
  The loop of \<^verbatim>\<open>parse\<close> over the blocks. An exception raised while a block is decoded
  ends the whole parse.
\<close>

fun parse_blocks :: "ustr list \<Rightarrow> error + CnkiPaper list" where
  "parse_blocks [] = Inr []"
| "parse_blocks (r # rs) =
     (let block = strip r in
      if block = [] \<or> length block < 50 then parse_blocks rs
      else
        (case parse_record block of
           Inl e \<Rightarrow> Inl e
         | Inr paper \<Rightarrow>
             (case parse_blocks rs of
                Inl e \<Rightarrow> Inl e
              | Inr papers \<Rightarrow> Inr (if title paper \<noteq> [] then paper # papers else papers))))"

definition parse_content :: "ustr \<Rightarrow> error + CnkiPaper list" where
  "parse_content content = parse_blocks (re_split content)"

text \<open>
  The file system as \<^verbatim>\<open>parse\<close> sees it: a path names nothing (\<open>None\<close>) or a readable
  regular file with its bytes. \<^verbatim>\<open>open(file_path, 'r', encoding='utf-8')\<close> and
  \<^verbatim>\<open>f.read()\<close> decode the bytes as UTF-8 in the strict mode, which raises
  \<^verbatim>\<open>UnicodeDecodeError\<close> at the first ill-formed sequence (a stray or missing
  continuation byte, an overlong form, a surrogate, a value above U+10FFFF), and the text
  mode turns \<^verbatim>\<open>\r\n\<close> and a lone \<^verbatim>\<open>\r\<close> into \<^verbatim>\<open>\n\<close>.
\<close>

type_synonym byte = "8 word"

type_synonym filesystem = "ustr \<Rightarrow> byte list option"

definition in_range :: "byte \<Rightarrow> nat \<Rightarrow> nat \<Rightarrow> bool" where
  "in_range b lo hi \<longleftrightarrow> lo \<le> unat b \<and> unat b \<le> hi"

fun utf8_decode :: "byte list \<Rightarrow> ustr option" where
  "utf8_decode [] = Some []"
| "utf8_decode (b0 # bs) =
     (if unat b0 < 0x80 then map_option ((#) (unat b0)) (utf8_decode bs)
      else if in_range b0 0xC2 0xDF then
        (case bs of
           b1 # r \<Rightarrow>
             if in_range b1 0x80 0xBF
             then map_option ((#) ((unat b0 - 0xC0) * 64 + (unat b1 - 0x80))) (utf8_decode r)
             else None
         | _ \<Rightarrow> None)
      else if in_range b0 0xE0 0xEF then
        (case bs of
           b1 # b2 # r \<Rightarrow>
             if in_range b1 (if unat b0 = 0xE0 then 0xA0 else 0x80)
                            (if unat b0 = 0xED then 0x9F else 0xBF) \<and>
                in_range b2 0x80 0xBF
             then map_option
                    ((#) ((unat b0 - 0xE0) * 4096 + (unat b1 - 0x80) * 64 + (unat b2 - 0x80)))
                    (utf8_decode r)
             else None
         | _ \<Rightarrow> None)
      else if in_range b0 0xF0 0xF4 then
        (case bs of
           b1 # b2 # b3 # r \<Rightarrow>
             if in_range b1 (if unat b0 = 0xF0 then 0x90 else 0x80)
                            (if unat b0 = 0xF4 then 0x8F else 0xBF) \<and>
                in_range b2 0x80 0xBF \<and> in_range b3 0x80 0xBF
             then map_option
                    ((#) ((unat b0 - 0xF0) * 262144 + (unat b1 - 0x80) * 4096 +
                          (unat b2 - 0x80) * 64 + (unat b3 - 0x80)))
                    (utf8_decode r)
             else None
         | _ \<Rightarrow> None)
      else None)"

fun universal_newlines :: "ustr \<Rightarrow> ustr" where
  "universal_newlines [] = []"
| "universal_newlines [a] = [if a = 0x0D then 0x0A else a]"
| "universal_newlines (a # b # cs) =
     (if a = 0x0D \<and> b = 0x0A then 0x0A # universal_newlines cs
      else if a = 0x0D then 0x0A # universal_newlines (b # cs)
      else a # universal_newlines (b # cs))"

text \<open>\<^verbatim>\<open>CnkiEndNoteParser.parse\<close>. The message it prints is not part of the model.\<close>

definition parse :: "filesystem \<Rightarrow> ustr \<Rightarrow> error + CnkiPaper list" where
  "parse fs file_path =
     (case fs file_path of
        None \<Rightarrow> Inl FileNotFoundError
      | Some bytes \<Rightarrow>
          (case utf8_decode bytes of
             None \<Rightarrow> Inl UnicodeDecodeError
           | Some text \<Rightarrow> parse_content (universal_newlines text)))"



text \<open>
  The statistics dictionary of \<^verbatim>\<open>quick_parse\<close>, a field per key. \<^verbatim>\<open>len(set(\<dots>))\<close> is
  the number of distinct elements, \<^verbatim>\<open>sorted(set(\<dots>))\<close> the distinct elements in
  ascending order.
\<close>

record Stats =
  stats_total :: nat
  stats_years :: "int list"
  stats_authors :: nat
  stats_journals :: nat
  stats_institutions :: nat

definition basic_stats :: "CnkiPaper list \<Rightarrow> Stats" where
  "basic_stats papers =
     \<lparr>stats_total = length papers,
      stats_years = sort (remdups [year p. p \<leftarrow> papers, 2000 < year p]),
      stats_authors = length (remdups [a. p \<leftarrow> papers, a \<leftarrow> authors p]),
      stats_journals = length (remdups [journal p. p \<leftarrow> papers, journal p \<noteq> []]),
      stats_institutions = length (remdups [institution p. p \<leftarrow> papers, institution p \<noteq> []])\<rparr>"


section \<open>Graphs (\<^verbatim>\<open>networkx.Graph\<close>)\<close>

text \<open>
  An undirected graph of \<^verbatim>\<open>networkx\<close> is two dictionaries: \<open>node\<close> maps each node
  to its attributes, and \<open>adj\<close> maps each node to its neighbours, with the data of the
  edge, of which the builders use the weight alone. The two directions of an edge share
  one data dictionary, so a weight is always written in both. The order in which a
  dictionary lists its keys is not in the model.
\<close>

record Graph =
  node :: "ustr \<Rightarrow> (string \<Rightarrow> int option) option"
  adj :: "ustr \<Rightarrow> ustr \<Rightarrow> int option"

definition empty_graph :: Graph where
  "empty_graph = \<lparr>node = (\<lambda>n. None), adj = (\<lambda>a b. None)\<rparr>"

definition has_edge :: "Graph \<Rightarrow> ustr \<Rightarrow> ustr \<Rightarrow> bool" where
  "has_edge G a b \<longleftrightarrow> adj G a b \<noteq> None"

definition set_weight :: "Graph \<Rightarrow> ustr \<Rightarrow> ustr \<Rightarrow> int \<Rightarrow> Graph" where
  "set_weight G a b w =
     (let adj1 = (adj G)(a := (adj G a)(b \<mapsto> w))
      in G\<lparr>adj := adj1(b := (adj1 b)(a \<mapsto> w))\<rparr>)"

text \<open>\<^verbatim>\<open>G.add_edge(a, b, weight=w)\<close>: both ends become nodes if they are not yet.\<close>

definition add_node :: "Graph \<Rightarrow> ustr \<Rightarrow> Graph" where
  "add_node G a = (if node G a = None then G\<lparr>node := (node G)(a \<mapsto> (\<lambda>k. None))\<rparr> else G)"

definition add_edge :: "Graph \<Rightarrow> ustr \<Rightarrow> ustr \<Rightarrow> int \<Rightarrow> Graph" where
  "add_edge G a b w = set_weight (add_node (add_node G a) b) a b w"

text \<open>\<^verbatim>\<open>G.nodes[n][key] = x\<close>, a \<^verbatim>\<open>KeyError\<close> when \<open>n\<close> is not a node.\<close>

definition set_node_attr :: "Graph \<Rightarrow> ustr \<Rightarrow> string \<Rightarrow> int \<Rightarrow> error + Graph" where
  "set_node_attr G n key x =
     (case node G n of
        None \<Rightarrow> Inl KeyError
      | Some attrs \<Rightarrow> Inr (G\<lparr>node := (node G)(n \<mapsto> attrs(key \<mapsto> x))\<rparr>))"

text \<open>
  The body the co-authorship and the institution builder share: the weight of an edge
  that exists goes up by one, an edge that does not is added with weight 1.
\<close>

definition count_pair :: "ustr \<times> ustr \<Rightarrow> Graph \<Rightarrow> Graph" where
  "count_pair pr G =
     (case pr of (a1, a2) \<Rightarrow>
        (case adj G a1 a2 of
           Some w \<Rightarrow> set_weight G a1 a2 (w + 1)
         | None \<Rightarrow> add_edge G a1 a2 1))"

text \<open>
  \<^verbatim>\<open>for i, x in enumerate(xs): for y in xs[i+1:]\<close> visits the pairs of positions
  \<open>i < j\<close>, in this order.
\<close>

fun pairs :: "'a list \<Rightarrow> ('a \<times> 'a) list" where
  "pairs [] = []"
| "pairs (x # xs) = map (Pair x) xs @ pairs xs"

section \<open>The network builder (\<^verbatim>\<open>network_builder.py\<close>)\<close>

record NetworkBuilder =
  papers :: "CnkiPaper list"

text \<open>
  \<^verbatim>\<open>author_papers[author].append(paper)\<close> on a \<^verbatim>\<open>defaultdict(list)\<close>, whose keys stay
  in the order of their first insertion.
\<close>

fun append_paper ::
  "(ustr \<times> CnkiPaper list) list \<Rightarrow> ustr \<Rightarrow> CnkiPaper \<Rightarrow> (ustr \<times> CnkiPaper list) list" where
  "append_paper [] a p = [(a, [p])]"
| "append_paper ((k, ps) # rest) a p =
     (if k = a then (k, ps @ [p]) # rest else (k, ps) # append_paper rest a p)"

definition group_by_author :: "CnkiPaper list \<Rightarrow> (ustr \<times> CnkiPaper list) list" where
  "group_by_author ps =
     fold (\<lambda>paper author_papers.
             fold (\<lambda>author ap. if author \<noteq> [] then append_paper ap author paper else ap)
                  (authors paper) author_papers)
          ps []"

text \<open>\<^verbatim>\<open>xs[:n]\<close>; a negative \<open>n\<close> counts from the end.\<close>

definition slice_to :: "int \<Rightarrow> 'a list \<Rightarrow> 'a list" where
  "slice_to n xs = (if 0 \<le> n then take (nat n) xs else take (length xs - nat (- n)) xs)"

text \<open>
  \<^verbatim>\<open>sorted(items, key=\<dots>, reverse=True)\<close> is stable: items with equal keys keep their
  order. A stable ascending sort by the negated key is the same list.
\<close>

definition top_authors ::
  "int \<Rightarrow> (ustr \<times> CnkiPaper list) list \<Rightarrow> (ustr \<times> CnkiPaper list) list" where
  "top_authors top_n author_papers =
     slice_to top_n (sort_key (\<lambda>x. - int (length (snd x))) author_papers)"

definition lookup_papers :: "(ustr \<times> CnkiPaper list) list \<Rightarrow> ustr \<Rightarrow> CnkiPaper list" where
  "lookup_papers author_papers a = (case map_of author_papers a of None \<Rightarrow> [] | Some ps \<Rightarrow> ps)"

definition build_coauthorship :: "NetworkBuilder \<Rightarrow> int \<Rightarrow> Graph \<times> NetworkBuilder" where
  "build_coauthorship self top_n =
     (let author_papers = group_by_author (papers self);
          top_names = set (map fst (top_authors top_n author_papers));
          G = fold (\<lambda>paper. fold count_pair (pairs [a \<leftarrow> authors paper. a \<in> top_names]))
                   (papers self) empty_graph;
          G = G\<lparr>node := (\<lambda>n. map_option
                   (\<lambda>attrs. attrs(''paper_count'' \<mapsto> int (length (lookup_papers author_papers n)),
                                   ''citations'' \<mapsto> sum_list (map citations (lookup_papers author_papers n))))
                   (node G n))\<rparr>
      in (G, self))"

definition build_institution :: "NetworkBuilder \<Rightarrow> Graph \<times> NetworkBuilder" where
  "build_institution self =
     (let G = fold (\<lambda>paper G.
                      let institutions = all_institutions paper in
                      if length institutions < 2 then G
                      else fold count_pair (pairs institutions) G)
                   (papers self) empty_graph;
          G = G\<lparr>node := (\<lambda>n. map_option
                   (\<lambda>attrs. attrs(''paper_count'' \<mapsto>
                              int (length [p \<leftarrow> papers self. n \<in> set (all_institutions p)])))
                   (node G n))\<rparr>
      in (G, self))"

text \<open>A \<^verbatim>\<open>Counter\<close>: keys in the order of first insertion, 0 for a key it does not hold.\<close>

fun counter_incr :: "('k \<times> nat) list \<Rightarrow> 'k \<Rightarrow> ('k \<times> nat) list" where
  "counter_incr [] k = [(k, 1)]"
| "counter_incr ((k1, n) # c) k =
     (if k1 = k then (k1, n + 1) # c else (k1, n) # counter_incr c k)"

definition counter_get :: "('k \<times> nat) list \<Rightarrow> 'k \<Rightarrow> nat" where
  "counter_get c k = (case map_of c k of None \<Rightarrow> 0 | Some n \<Rightarrow> n)"

definition keyword_freq :: "CnkiPaper list \<Rightarrow> (ustr \<times> nat) list" where
  "keyword_freq ps =
     fold (\<lambda>paper. fold (\<lambda>kw c. if kw \<noteq> [] then counter_incr c kw else c) (keywords paper))
          ps []"

text \<open>\<^verbatim>\<open>tuple(sorted([kw1, kw2]))\<close>: strings compare by code point, lexicographically.\<close>

definition sorted_pair :: "ustr \<Rightarrow> ustr \<Rightarrow> ustr \<times> ustr" where
  "sorted_pair kw1 kw2 = (if kw2 < kw1 then (kw2, kw1) else (kw1, kw2))"

definition cooccurrence ::
  "ustr set \<Rightarrow> CnkiPaper list \<Rightarrow> ((ustr \<times> ustr) \<times> nat) list" where
  "cooccurrence valid_keywords ps =
     fold (\<lambda>paper.
             fold (\<lambda>pr c. case pr of (kw1, kw2) \<Rightarrow>
                     if kw1 \<noteq> kw2 then counter_incr c (sorted_pair kw1 kw2) else c)
                  (pairs [kw \<leftarrow> keywords paper. kw \<in> valid_keywords]))
          ps []"

fun add_keyword_edges ::
  "(ustr \<times> nat) list \<Rightarrow> ((ustr \<times> ustr) \<times> nat) list \<Rightarrow> Graph \<Rightarrow> error + Graph" where
  "add_keyword_edges freq [] G = Inr G"
| "add_keyword_edges freq (((kw1, kw2), weight) # items) G =
     (if 2 \<le> weight then
        (case set_node_attr (add_edge G kw1 kw2 (int weight)) kw1 ''freq''
                (int (counter_get freq kw1)) of
           Inl e \<Rightarrow> Inl e
         | Inr G1 \<Rightarrow>
             (case set_node_attr G1 kw2 ''freq'' (int (counter_get freq kw2)) of
                Inl e \<Rightarrow> Inl e
              | Inr G2 \<Rightarrow> add_keyword_edges freq items G2))
      else add_keyword_edges freq items G)"

definition build_keywords :: "NetworkBuilder \<Rightarrow> int \<Rightarrow> (error + Graph) \<times> NetworkBuilder" where
  "build_keywords self min_freq =
     (let freq = keyword_freq (papers self);
          valid_keywords = set [kw. (kw, n) \<leftarrow> freq, min_freq \<le> int n]
      in (add_keyword_edges freq (cooccurrence valid_keywords (papers self)) empty_graph, self))"

section \<open>The format, field by field\<close>

text \<open>
  What the format says a block holds, stated without the loop. A line qualifies when,
  trimmed, it starts with \<^verbatim>\<open>%\<close> and has two characters or more; its first two
  characters are the marker and the rest, trimmed, is the value. \<open>fields\<close> lists marker
  and value of the qualifying lines of a block in order, \<open>values_of\<close> the values under
  one marker.
\<close>

definition qualifies :: "ustr \<Rightarrow> bool" where
  "qualifies raw \<longleftrightarrow> startswith (strip raw) (u ''%'') \<and> 2 \<le> length (strip raw)"

definition line_field :: "ustr \<Rightarrow> ustr \<times> ustr" where
  "line_field raw = (take 2 (strip raw), strip (drop 2 (strip raw)))"

definition fields :: "ustr \<Rightarrow> (ustr \<times> ustr) list" where
  "fields block = [line_field l. l \<leftarrow> split_on (\<lambda>c. c = 0x0A) (strip block), qualifies l]"

definition vals :: "ustr \<Rightarrow> (ustr \<times> ustr) list \<Rightarrow> ustr list" where
  "vals marker fs = [snd f. f \<leftarrow> fs, fst f = marker]"

definition values_of :: "ustr \<Rightarrow> ustr \<Rightarrow> ustr list" where
  "values_of marker block = vals marker (fields block)"

definition last_or :: "'a \<Rightarrow> 'a list \<Rightarrow> 'a" where
  "last_or d xs = (if xs = [] then d else last xs)"

text \<open>
  The first substring of a value that is a year: four characters, \<^verbatim>\<open>19\<close> or \<^verbatim>\<open>20\<close>
  and two decimal digits, at the least position where such four characters stand.
\<close>

definition year_pattern :: "ustr \<Rightarrow> bool" where
  "year_pattern s \<longleftrightarrow>
     length s = 4 \<and> (take 2 s = u ''19'' \<or> take 2 s = u ''20'') \<and> list_all is_decimal (drop 2 s)"

definition first_year_substring :: "ustr \<Rightarrow> ustr option" where
  "first_year_substring v =
     map_option (\<lambda>i. take 4 (drop i v))
       (find (\<lambda>i. year_pattern (take 4 (drop i v))) [0..<length v])"

text \<open>The segments of an institution line and of a keyword line.\<close>

definition institution_segments :: "ustr \<Rightarrow> ustr list" where
  "institution_segments v = filter (\<lambda>i. i \<noteq> []) (map strip (split_on (\<lambda>c. c = 0x3B) v))"

definition keyword_segments :: "ustr \<Rightarrow> ustr list" where
  "keyword_segments v = filter (\<lambda>k. k \<noteq> []) (map strip (split_on keyword_delimiter v))"

text \<open>
  The record of a list of fields, one field of the record at a time: the last value under
  a marker for the fields that a line sets, every non-empty value in order for the
  authors, the last non-empty institution and keyword line split into its segments, the
  year of the last date line that holds one, the counts of the last statistics line that
  holds them, and the default where no line gives a value.
\<close>

definition decode_fields :: "(ustr \<times> ustr) list \<Rightarrow> CnkiPaper" where
  "decode_fields fs =
     \<lparr>title = last_or [] (vals (u ''%T'') fs),
      authors = [v \<leftarrow> vals (u ''%A'') fs. v \<noteq> []],
      institution =
        (case last_or [] (map institution_segments [v \<leftarrow> vals (u ''%+'') fs. v \<noteq> []]) of
           [] \<Rightarrow> []
         | i # _ \<Rightarrow> i),
      all_institutions = last_or [] (map institution_segments [v \<leftarrow> vals (u ''%+'') fs. v \<noteq> []]),
      journal = last_or [] (vals (u ''%J'') fs),
      year = last_or 0 (map digits_value (List.map_filter first_year_substring (vals (u ''%D'') fs))),
      volume = last_or [] (vals (u ''%V'') fs),
      issue = last_or [] (vals (u ''%N'') fs),
      pages = last_or [] (vals (u ''%P'') fs),
      keywords = last_or [] (map keyword_segments [v \<leftarrow> vals (u ''%K'') fs. v \<noteq> []]),
      abstract = last_or [] (vals (u ''%X'') fs),
      doi = last_or [] (vals (u ''%R'') fs),
      url = last_or [] (vals (u ''%U'') fs),
      issn = last_or [] (vals (u ''%@'') fs),
      cn_code = last_or [] (vals (u ''%L'') fs),
      citations =
        last_or 0 (map digits_value (List.map_filter (search_count cited_label) (vals (u ''%Z'') fs))),
      downloads =
        last_or 0 (map digits_value (List.map_filter (search_count download_label) (vals (u ''%Z'') fs))),
      cnki_id = last_or None (map Some (vals (u ''%W'') fs))\<rparr>"

definition decode :: "ustr \<Rightarrow> CnkiPaper" where
  "decode block = decode_fields (fields block)"

text \<open>
  A count fits when \<^verbatim>\<open>int\<close> converts it: it has no more digits than the interpreter's
  limit. A block's counts fit when those of each of its statistics lines do.
\<close>

definition count_fits :: "ustr \<Rightarrow> ustr \<Rightarrow> bool" where
  "count_fits label v =
     (case search_count label v of None \<Rightarrow> True | Some d \<Rightarrow> length d \<le> int_max_str_digits)"

definition counts_fit :: "ustr \<Rightarrow> bool" where
  "counts_fit block =
     list_all (\<lambda>v. count_fits cited_label v \<and> count_fits download_label v)
       (values_of (u ''%Z'') block)"

text \<open>
  The candidate blocks of a text are the pieces of the split, trimmed. A block is well
  formed when it has 50 characters or more and its title line has a value that is not
  empty (the last title line, should the block repeat the marker).
\<close>

definition candidate_blocks :: "ustr \<Rightarrow> ustr list" where
  "candidate_blocks content = map strip (re_split content)"

definition well_formed :: "ustr \<Rightarrow> bool" where
  "well_formed block \<longleftrightarrow> 50 \<le> length block \<and> last_or [] (values_of (u ''%T'') block) \<noteq> []"

definition long_counts_fit :: "ustr \<Rightarrow> bool" where
  "long_counts_fit block \<longleftrightarrow> length block < 50 \<or> counts_fit block"



section \<open>Counting in a corpus\<close>

text \<open>
  Counts over a whole corpus, stated without the dictionaries of the builders. The
  frequency of a keyword is the number of times the keyword lists of the records hold
  it. The co-occurrences of two keywords are the pairs of positions \<open>i < j\<close> of one
  keyword list at which the two stand, in either order, over all records.
\<close>

definition keyword_count :: "CnkiPaper list \<Rightarrow> ustr \<Rightarrow> nat" where
  "keyword_count ps k = sum_list (map (\<lambda>p. count_list (keywords p) k) ps)"

definition cooccurrences :: "CnkiPaper list \<Rightarrow> ustr \<Rightarrow> ustr \<Rightarrow> nat" where
  "cooccurrences ps k1 k2 =
     sum_list (map (\<lambda>p. length [pr \<leftarrow> pairs (keywords p). pr = (k1, k2) \<or> pr = (k2, k1)]) ps)"

text \<open>
  A keyword is frequent when it is not the empty string (the records never hold one) and
  its frequency reaches the threshold.
\<close>

definition frequent :: "CnkiPaper list \<Rightarrow> int \<Rightarrow> ustr \<Rightarrow> bool" where
  "frequent ps min_freq k \<longleftrightarrow> k \<noteq> [] \<and> min_freq \<le> int (keyword_count ps k)"

text \<open>The keys that the co-occurrence loop counts, one for each turn that counts.\<close>

definition pair_keys :: "ustr set \<Rightarrow> CnkiPaper list \<Rightarrow> (ustr \<times> ustr) list" where
  "pair_keys V ps =
     concat (map (\<lambda>p. map (\<lambda>pr. sorted_pair (fst pr) (snd pr))
                         [pr \<leftarrow> pairs [kw \<leftarrow> keywords p. kw \<in> V]. fst pr \<noteq> snd pr]) ps)"

text \<open>
  A graph that only \<^verbatim>\<open>add_edge\<close> has filled: every edge is there in both directions,
  and the nodes are the ends of the edges.
\<close>

definition edge_made :: "Graph \<Rightarrow> bool" where
  "edge_made G \<longleftrightarrow>
     (\<forall>a b. adj G a b = adj G b a) \<and> (\<forall>n. node G n \<noteq> None \<longleftrightarrow> (\<exists>m. adj G n m \<noteq> None))"

section \<open>Sample blocks\<close>

text \<open>
  Blocks in the shape of the fixture of \<^verbatim>\<open>cnki_parser.py\<close>, each of 50 characters or
  more. The date of the first is \<^verbatim>\<open>2024\<close> followed by the four characters U+5E74,
  U+7B2C, \<^verbatim>\<open>5\<close>, U+671F (year, issue number 5); the second has a date without a year;
  the third has two date lines, the last of them without a year; the fourth has two
  institution lines, the last of them with no value.
\<close>

definition issue_date :: ustr where
  "issue_date = u ''2024'' @ [0x5E74, 0x7B2C, 0x35, 0x671F]"

definition dated_block :: ustr where
  "dated_block =
     u ''%0 Journal Article\<newline>%T Audit quality and big data\<newline>%A Wang Wei\<newline>%D '' @ issue_date"

definition undated_block :: ustr where
  "undated_block =
     u ''%0 Journal Article\<newline>%T Audit quality and big data\<newline>%A Wang Wei\<newline>%D in press''"

definition two_date_lines :: ustr where
  "two_date_lines =
     u ''%0 Journal Article\<newline>%T Audit quality and big data\<newline>%D 2021-03\<newline>%D in press''"

definition two_institution_lines :: ustr where
  "two_institution_lines =
     u ''%0 Journal Article\<newline>%T Audit quality and big data\<newline>%+ School A; School B;\<newline>%+''"


text \<open>
  A file system with two files: the UTF-8 bytes of a block of 52 characters whose title
  ends with the character U+5BA1 (three bytes), and a file of the single byte FF, which
  is not UTF-8. No other path exists.
\<close>

definition audit_bytes :: "byte list" where
  "audit_bytes =
     map of_char ''%0 Journal Article\<newline>%T Big data and audit quality \<newline>%A Li''
     @ [0x0D, 0x0A] @ map of_char ''%T Audit '' @ [0xE5, 0xAE, 0xA1]"

definition sample_fs :: filesystem where
  "sample_fs file_path =
     (if file_path = u ''audit.enw'' then Some audit_bytes
      else if file_path = u ''latin.enw'' then Some [0xFF]
      else None)"

text \<open>
  Three small corpora. In the first, A and B write two records together and A a third
  with C. In the second, one record names the author A twice, before B. In the third,
  the keywords a and b stand together in two records, c with a and with b in one, and c
  with d in one.
\<close>

definition team_corpus :: "CnkiPaper list" where
  "team_corpus =
     [new_paper\<lparr>title := u ''P1'', authors := [u ''A'', u ''B''], citations := 3\<rparr>,
      new_paper\<lparr>title := u ''P2'', authors := [u ''A'', u ''B''], citations := 4\<rparr>,
      new_paper\<lparr>title := u ''P3'', authors := [u ''A'', u ''C''], citations := 10\<rparr>]"

definition repeated_author_corpus :: "CnkiPaper list" where
  "repeated_author_corpus =
     [new_paper\<lparr>title := u ''P1'', authors := [u ''A'', u ''A'', u ''B''], citations := 5\<rparr>]"

definition keyword_corpus :: "CnkiPaper list" where
  "keyword_corpus =
     [new_paper\<lparr>title := u ''P1'', keywords := [u ''a'', u ''b'', u ''c'']\<rparr>,
      new_paper\<lparr>title := u ''P2'', keywords := [u ''a'', u ''b'']\<rparr>,
      new_paper\<lparr>title := u ''P3'', keywords := [u ''c'', u ''d'']\<rparr>]"

section \<open>Evaluation on concrete inputs\<close>

lemmas parse_eval =
  parse_content_def re_split_def at_record_start_def parse_record_def parse_line_def
  set_field_def   strip_def is_space_def startswith_def new_paper_def u_def Let_def
  year_at_def is_decimal_def decimal_value_def nd_starts_def py_int_def digits_value_def
  int_max_str_digits_def keyword_delimiter_def

lemmas spec_eval =
  values_of_def fields_def vals_def qualifies_def line_field_def last_or_def
  first_year_substring_def year_pattern_def institution_segments_def keyword_segments_def
  List.map_filter_def decode_def decode_fields_def

lemmas block_eval = well_formed_def long_counts_fit_def counts_fit_def count_fits_def

lemmas count_eval = cooccurrences_def keyword_count_def frequent_def

lemmas graph_eval =
  build_coauthorship_def build_institution_def build_keywords_def group_by_author_def
  top_authors_def slice_to_def lookup_papers_def new_paper_def count_pair_def add_edge_def
  add_node_def set_weight_def empty_graph_def has_edge_def keyword_freq_def cooccurrence_def
  sorted_pair_def set_node_attr_def counter_get_def Let_def u_def

text \<open>
  The parser keeps a name that a block gives twice: two equal \<^verbatim>\<open>%A\<close> lines make an
  author list with the name twice, and a \<^verbatim>\<open>%+\<close> line may repeat an institution.
\<close>

lemma parser_keeps_repeated_names:
  "parse_content (u ''%0 Journal Article\<newline>%T Audit quality and big data\<newline>%A Wang Wei\<newline>%A Wang Wei\<newline>%+ School A;School A'')
   = Inr [new_paper\<lparr>title := u ''Audit quality and big data'',
            authors := [u ''Wang Wei'', u ''Wang Wei''],
            all_institutions := [u ''School A'', u ''School A''],
            institution := u ''School A''\<rparr>]"
  by (simp add: parse_eval)

section \<open>Decoding a block\<close>

lemma find_map: "find P (map f xs) = map_option f (find (P \<circ> f) xs)"
  by (induction xs) auto

lemma upt_Suc_shift: "[0..<Suc n] = 0 # map Suc [0..<n]"
  by (simp add: upt_conv_Cons map_Suc_upt del: upt_Suc)

lemma year_at_pattern: "year_at s \<longleftrightarrow> year_pattern (take 4 s)"
  by (auto simp add: year_at_def year_pattern_def u_def split: list.splits)

text \<open>The search of the pattern finds the first substring that is a year.\<close>

lemma search_year_first: "search_year v = first_year_substring v"
proof (induction v)
  case Nil
  then show ?case by (simp add: first_year_substring_def)
next
  case (Cons c cs)
  show ?case
  proof (cases "year_at (c # cs)")
    case True
    then show ?thesis
      using year_at_pattern [of "c # cs"]
      by (simp add: first_year_substring_def upt_Suc_shift del: upt_Suc)
  next
    case False
    then have "\<not> year_pattern (take 4 (c # cs))"
      using year_at_pattern [of "c # cs"] by simp
    with False Cons show ?thesis
      by (simp add: first_year_substring_def upt_Suc_shift find_map comp_def
          option.map_comp del: upt_Suc)
  qed
qed

lemma is_decimal_ascii: "is_decimal 0x30" "is_decimal 0x31" "is_decimal 0x32" "is_decimal 0x39"
  by (simp_all add: is_decimal_def decimal_value_def nd_starts_def)

lemma search_year_digits:
  assumes "search_year v = Some m"
  shows "length m = 4 \<and> list_all is_decimal m"
  using assms
proof (induction v)
  case Nil
  then show ?case by simp
next
  case (Cons c cs)
  show ?case
  proof (cases "year_at (c # cs)")
    case True
    with Cons.prems have m: "m = take 4 (c # cs)" by simp
    from True show ?thesis unfolding m
      by (auto simp add: year_at_def is_decimal_ascii split: list.splits)
  next
    case False
    with Cons show ?thesis by simp
  qed
qed

text \<open>\<^verbatim>\<open>int\<close> never fails on a year, and fails on a count only when it is too long.\<close>

lemma py_int_year: "search_year v = Some m \<Longrightarrow> py_int m = Inr (digits_value m)"
  using search_year_digits [of v m]
  by (auto simp add: py_int_def int_max_str_digits_def)

lemma count_at_digits: "count_at label s = Some d \<Longrightarrow> d \<noteq> [] \<and> list_all is_decimal d"
  by (auto simp add: count_at_def Let_def list_all_iff split: if_splits dest: set_takeWhileD)

lemma search_count_digits: "search_count label v = Some d \<Longrightarrow> d \<noteq> [] \<and> list_all is_decimal d"
proof (induction v)
  case Nil
  then show ?case by simp
next
  case (Cons c cs)
  then show ?case
    using count_at_digits [of label "c # cs" d]
    by (auto split: option.splits)
qed

lemma py_int_count:
  "search_count label v = Some d \<Longrightarrow>
     py_int d = (if length d \<le> int_max_str_digits then Inr (digits_value d) else Inl ValueError)"
  using search_count_digits [of label v d] by (auto simp add: py_int_def)

lemma vals_snoc: "vals m (fs @ [(k, v)]) = vals m fs @ (if k = m then [v] else [])"
  by (simp add: vals_def)

lemma last_or_snoc: "last_or d (xs @ [x]) = x"
  by (simp add: last_or_def)

lemma map_filter_snoc:
  "List.map_filter f (xs @ [x]) = List.map_filter f xs @ (case f x of None \<Rightarrow> [] | Some y \<Rightarrow> [y])"
  by (simp add: List.map_filter_def split: option.split)

lemma nonempty_images:
  "concat (map (\<lambda>i. if f i \<noteq> [] then [f i] else []) xs) = filter (\<lambda>i. i \<noteq> []) (map f xs)"
  by (induction xs) auto

text \<open>
  The chain of comparisons, applied to the record of the fields read so far, gives the
  record of the fields with the new one added, or fails on a count that does not fit.
\<close>

lemma set_field_decode:
  "set_field (decode_fields fs) k v =
     (if k = u ''%Z'' \<and> \<not> (count_fits cited_label v \<and> count_fits download_label v)
      then Inl ValueError
      else Inr (decode_fields (fs @ [(k, v)])))"
proof -
  have year: "\<And>m. search_year v = Some m \<Longrightarrow> py_int m = Inr (digits_value m)"
    by (rule py_int_year)
  have cnt: "\<And>label d. search_count label v = Some d \<Longrightarrow>
     py_int d = (if length d \<le> int_max_str_digits then Inr (digits_value d) else Inl ValueError)"
    by (rule py_int_count)
  show ?thesis
    unfolding set_field_def
    by (auto simp add: decode_fields_def vals_snoc last_or_snoc map_filter_snoc u_def year cnt
        count_fits_def institution_segments_def keyword_segments_def Let_def
        search_year_first [symmetric] nonempty_images
        split: option.splits)
qed

lemma parse_lines_snoc:
  "parse_lines p (ls @ [l]) =
     (case parse_lines p ls of Inl e \<Rightarrow> Inl e | Inr p1 \<Rightarrow> parse_line p1 l)"
  by (induction ls arbitrary: p) (auto split: sum.splits)

lemma parse_line_field:
  "parse_line p l =
     (if qualifies l then set_field p (fst (line_field l)) (snd (line_field l)) else Inr p)"
  by (auto simp add: parse_line_def qualifies_def line_field_def Let_def startswith_def)

lemma decode_fields_Nil: "decode_fields [] = new_paper"
  by (simp add: decode_fields_def new_paper_def vals_def last_or_def List.map_filter_def)

lemma parse_lines_decode:
  "parse_lines new_paper ls =
     (if list_all (\<lambda>v. count_fits cited_label v \<and> count_fits download_label v)
           (vals (u ''%Z'') [line_field l. l \<leftarrow> ls, qualifies l])
      then Inr (decode_fields [line_field l. l \<leftarrow> ls, qualifies l])
      else Inl ValueError)"
proof (induction ls rule: rev_induct)
  case Nil
  then show ?case by (simp add: decode_fields_Nil vals_def)
next
  case (snoc l ls)
  show ?case
  proof (cases "qualifies l")
    case False
    with snoc show ?thesis
      by (simp add: parse_lines_snoc parse_line_field)
  next
    case True
    obtain k v where kv: "line_field l = (k, v)"
      by (cases "line_field l")
    from True kv snoc show ?thesis
      by (simp add: parse_lines_snoc parse_line_field set_field_decode vals_snoc)
  qed
qed

text \<open>
  \<^verbatim>\<open>_parse_record\<close> returns the record the format describes, field for field, unless a
  count of the block does not fit, when it raises \<^verbatim>\<open>ValueError\<close>.
\<close>

lemma parse_record_decode:
  "parse_record block = (if counts_fit block then Inr (decode block) else Inl ValueError)"
  by (simp add: parse_record_def parse_lines_decode counts_fit_def values_of_def fields_def
      decode_def)

lemma decimal_value_less: "decimal_value c = Some d \<Longrightarrow> d < 10"
  by (auto simp add: decimal_value_def find_Some_iff split: option.splits)

lemma decimal_value_ascii:
  "decimal_value 0x30 = Some 0" "decimal_value 0x31 = Some 1"
  "decimal_value 0x32 = Some 2" "decimal_value 0x39 = Some 9"
  by (simp_all add: decimal_value_def nd_starts_def)

lemma year_value_range:
  assumes "first_year_substring v = Some m"
  shows "1900 \<le> digits_value m \<and> digits_value m \<le> 2099"
proof -
  from assms obtain i where "year_pattern (take 4 (drop i v))" and m: "m = take 4 (drop i v)"
    unfolding first_year_substring_def by (auto simp add: find_Some_iff)
  then have p: "year_pattern m"
    by simp
  then obtain a b c d where abcd: "m = [a, b, c, d]"
    unfolding year_pattern_def
    by (cases m; cases "tl m"; cases "tl (tl m)"; cases "tl (tl (tl m))") auto
  from p have ab: "(a = 0x31 \<and> b = 0x39) \<or> (a = 0x32 \<and> b = 0x30)"
    and "is_decimal c" "is_decimal d"
    unfolding abcd year_pattern_def by (auto simp add: u_def)
  then obtain x y where x: "decimal_value c = Some x" and y: "decimal_value d = Some y"
    unfolding is_decimal_def by auto
  from decimal_value_less [OF x] decimal_value_less [OF y] ab show ?thesis
    unfolding abcd digits_value_def
    by (auto simp add: x y decimal_value_ascii)
qed

text \<open>
  Claim C7 as stated fails on a block with a date line that holds a year and a later date
  line that holds none: the later line has no substring that is a year, and the year of
  the record is that of the line before it, not the default 0.
\<close>

theorem later_date_line_without_year:
  "values_of (u ''%D'') two_date_lines = [u ''2021-03'', u ''in press'']
   \<and> first_year_substring (u ''in press'') = None
   \<and> map_sum id (map year) (parse_content two_date_lines) = Inr [2021]"
  by (simp add: two_date_lines_def spec_eval parse_eval upt_conv_Cons)

text \<open>
  Claim C7, amended. The search of the year pattern in the value of a date line returns
  the first substring of the value that is a year. A date line sets the year of the
  record to the number these four digits write, a number from 1900 to 2099, and, when
  the value holds no such substring, leaves the year as it is. So the year of a decoded
  record is that of its last date line that holds a year, and the default 0 when no date
  line holds one.
\<close>

theorem date_line_year:
  "search_year v = first_year_substring v
   \<and> set_field paper (u ''%D'') v =
       Inr (case first_year_substring v of
              None \<Rightarrow> paper
            | Some m \<Rightarrow> paper\<lparr>year := digits_value m\<rparr>)
   \<and> (parse_record block = Inr p \<longrightarrow>
        year p = last_or 0 (map digits_value
                   (List.map_filter first_year_substring (values_of (u ''%D'') block))))
   \<and> (first_year_substring v = Some m \<longrightarrow> 1900 \<le> digits_value m \<and> digits_value m \<le> 2099)"
proof -
  have "set_field paper (u ''%D'') v =
       Inr (case first_year_substring v of
              None \<Rightarrow> paper
            | Some m \<Rightarrow> paper\<lparr>year := digits_value m\<rparr>)"
    using py_int_year [of v]
    by (auto simp add: set_field_def u_def search_year_first [symmetric] split: option.splits)
  moreover have "parse_record block = Inr p \<longrightarrow>
        year p = last_or 0 (map digits_value
                   (List.map_filter first_year_substring (values_of (u ''%D'') block)))"
    by (auto simp add: parse_record_decode decode_def decode_fields_def values_of_def
        split: if_splits)
  moreover have "first_year_substring v = Some m \<longrightarrow>
        1900 \<le> digits_value m \<and> digits_value m \<le> 2099"
    using year_value_range [of v m] by blast
  ultimately show ?thesis
    using search_year_first [of v] by blast
qed

theorem date_line_year_witness:
  "search_year issue_date = Some (u ''2024'')
   \<and> set_field new_paper (u ''%D'') issue_date = Inr (new_paper\<lparr>year := 2024\<rparr>)
   \<and> values_of (u ''%D'') dated_block = [issue_date]
   \<and> map_sum id year (parse_record dated_block) = Inr 2024
   \<and> values_of (u ''%D'') undated_block = [u ''in press'']
   \<and> first_year_substring (u ''in press'') = None
   \<and> map_sum id year (parse_record undated_block) = Inr 0"
proof -
  let ?P = "new_paper\<lparr>title := u ''Audit quality and big data'', authors := [u ''Wang Wei''],
              year := 2024\<rparr>"
  let ?Q = "new_paper\<lparr>title := u ''Audit quality and big data'', authors := [u ''Wang Wei'']\<rparr>"
  have first: "first_year_substring issue_date = Some (u ''2024'')"
    by (simp add: issue_date_def spec_eval parse_eval list_all_iff)
  have none: "first_year_substring (u ''in press'') = None"
    by (simp add: spec_eval parse_eval upt_conv_Cons)
  have dv: "digits_value (u ''2024'') = 2024"
    by (simp add: parse_eval)
  have vd: "values_of (u ''%D'') dated_block = [issue_date]"
    by (simp add: dated_block_def issue_date_def spec_eval parse_eval)
  have vu: "values_of (u ''%D'') undated_block = [u ''in press'']"
    by (simp add: undated_block_def spec_eval parse_eval)
  have pd: "parse_record dated_block = Inr ?P"
    by (simp add: dated_block_def issue_date_def parse_eval)
  have pu: "parse_record undated_block = Inr ?Q"
    by (simp add: undated_block_def parse_eval)
  note d = date_line_year [of issue_date new_paper dated_block ?P]
  note n = date_line_year [of "u ''in press''" new_paper undated_block ?Q]
  from d first have s1: "search_year issue_date = Some (u ''2024'')"
    by simp
  from d first dv have s2: "set_field new_paper (u ''%D'') issue_date = Inr (new_paper\<lparr>year := 2024\<rparr>)"
    by simp
  from d pd have "year ?P = last_or 0 (map digits_value
      (List.map_filter first_year_substring (values_of (u ''%D'') dated_block)))"
    by blast
  with vd first dv have y1: "year ?P = 2024"
    by (simp add: last_or_def List.map_filter_def)
  from n pu have "year ?Q = last_or 0 (map digits_value
      (List.map_filter first_year_substring (values_of (u ''%D'') undated_block)))"
    by blast
  with vu none have y2: "year ?Q = 0"
    by (simp add: last_or_def List.map_filter_def)
  from s1 s2 vd vu none y1 y2 pd pu show ?thesis
    by simp
qed

text \<open>
  Claim C6 as stated fails on a block whose last institution line has no value: the
  line is skipped, and the list of the line before it stays.
\<close>

theorem last_institution_line_empty:
  "values_of (u ''%+'') two_institution_lines = [u ''School A; School B;'', []]
   \<and> institution_segments (last (values_of (u ''%+'') two_institution_lines)) = []
   \<and> map_sum id (map all_institutions) (parse_content two_institution_lines)
       = Inr [[u ''School A'', u ''School B'']]
   \<and> map_sum id (map institution) (parse_content two_institution_lines) = Inr [u ''School A'']"
  by (simp add: two_institution_lines_def spec_eval parse_eval)

text \<open>
  Claim C6, amended. The institution list of a decoded record is that of the last
  institution line of the block whose value is not empty: the value split at \<^verbatim>\<open>;\<close>, each
  segment trimmed, the empty ones dropped. Earlier institution lines add nothing to it.
  The primary institution is the first segment of this list, and the empty string when
  the list is empty.
\<close>

theorem last_institution_line_wins:
  "parse_record block = Inr p \<longrightarrow>
     all_institutions p =
       last_or [] (map institution_segments [v \<leftarrow> values_of (u ''%+'') block. v \<noteq> []])
     \<and> institution p = (case all_institutions p of [] \<Rightarrow> [] | i # _ \<Rightarrow> i)"
  by (auto simp add: parse_record_decode decode_def decode_fields_def values_of_def
      split: if_splits)

theorem last_institution_line_wins_witness:
  "parse_record (u ''%T Audit\<newline>%+ School A; School B\<newline>%+ School C;;School D;'')
     = Inr (new_paper\<lparr>title := u ''Audit'',
              all_institutions := [u ''School C'', u ''School D''],
              institution := u ''School C''\<rparr>)
   \<and> [v \<leftarrow> values_of (u ''%+'') (u ''%T Audit\<newline>%+ School A; School B\<newline>%+ School C;;School D;''). v \<noteq> []]
       = [u ''School A; School B'', u ''School C;;School D;'']
   \<and> institution_segments (u ''School C;;School D;'') = [u ''School C'', u ''School D'']"
proof -
  let ?B = "u ''%T Audit\<newline>%+ School A; School B\<newline>%+ School C;;School D;''"
  let ?P = "new_paper\<lparr>title := u ''Audit'',
              all_institutions := [u ''School C'', u ''School D''],
              institution := u ''School C''\<rparr>"
  have p: "parse_record ?B = Inr ?P"
    by (simp add: parse_eval)
  have v: "[v \<leftarrow> values_of (u ''%+'') ?B. v \<noteq> []]
       = [u ''School A; School B'', u ''School C;;School D;'']"
    by (simp add: spec_eval parse_eval)
  from last_institution_line_wins [of ?B ?P] p
  have "all_institutions ?P =
       last_or [] (map institution_segments [v \<leftarrow> values_of (u ''%+'') ?B. v \<noteq> []])"
    by blast
  with v have "institution_segments (u ''School C;;School D;'') = all_institutions ?P"
    by (simp add: last_or_def)
  then have "institution_segments (u ''School C;;School D;'') = [u ''School C'', u ''School D'']"
    by (simp add: new_paper_def)
  with p v show ?thesis
    by simp
qed

section \<open>Parsing a text\<close>

lemma title_decode: "title (decode b) = last_or [] (values_of (u ''%T'') b)"
  by (simp add: decode_def decode_fields_def values_of_def)

text \<open>
  The loop over the blocks keeps the records of the well-formed blocks, in order, and
  raises only when a count in a block of 50 characters or more does not fit.
\<close>

lemma parse_blocks_decode:
  "parse_blocks rs =
     (if list_all long_counts_fit (map strip rs)
      then Inr (map decode (filter well_formed (map strip rs)))
      else Inl ValueError)"
proof (induction rs)
  case Nil
  then show ?case by simp
next
  case (Cons r rs)
  show ?case
  proof (cases "length (strip r) < 50")
    case True
    then have "\<not> well_formed (strip r)" "long_counts_fit (strip r)"
      by (simp_all add: well_formed_def long_counts_fit_def)
    with True Cons show ?thesis
      by simp
  next
    case False
    then have ne: "strip r \<noteq> []" by auto
    from False have wf: "well_formed (strip r) \<longleftrightarrow> title (decode (strip r)) \<noteq> []"
      by (simp add: well_formed_def title_decode)
    from False have fit: "long_counts_fit (strip r) \<longleftrightarrow> counts_fit (strip r)"
      by (simp add: long_counts_fit_def)
    from False ne Cons show ?thesis
      by (simp add: wf fit parse_record_decode Let_def)
  qed
qed

lemma parse_content_decode:
  "parse_content text =
     (if list_all long_counts_fit (candidate_blocks text)
      then Inr (map decode (filter well_formed (candidate_blocks text)))
      else Inl ValueError)"
  by (simp add: parse_content_def parse_blocks_decode candidate_blocks_def)

text \<open>The split cuts the text before every record start, and nowhere else.\<close>

lemma concat_pieces: "concat (pieces s) = s"
  by (induction s) (auto split: list.splits)

lemma concat_re_split: "concat (re_split s) = s"
  by (simp add: re_split_def concat_pieces)







section \<open>Failures of the parse\<close>

text \<open>A field that no line of the block gives has its default in the record.\<close>

lemma decode_defaults:
  "(values_of (u ''%A'') b = [] \<longrightarrow> authors (decode b) = [])
   \<and> (values_of (u ''%+'') b = [] \<longrightarrow> all_institutions (decode b) = [] \<and> institution (decode b) = [])
   \<and> (values_of (u ''%J'') b = [] \<longrightarrow> journal (decode b) = [])
   \<and> (values_of (u ''%D'') b = [] \<longrightarrow> year (decode b) = 0)
   \<and> (values_of (u ''%V'') b = [] \<longrightarrow> volume (decode b) = [])
   \<and> (values_of (u ''%N'') b = [] \<longrightarrow> issue (decode b) = [])
   \<and> (values_of (u ''%P'') b = [] \<longrightarrow> pages (decode b) = [])
   \<and> (values_of (u ''%K'') b = [] \<longrightarrow> keywords (decode b) = [])
   \<and> (values_of (u ''%X'') b = [] \<longrightarrow> abstract (decode b) = [])
   \<and> (values_of (u ''%R'') b = [] \<longrightarrow> doi (decode b) = [])
   \<and> (values_of (u ''%U'') b = [] \<longrightarrow> url (decode b) = [])
   \<and> (values_of (u ''%@'') b = [] \<longrightarrow> issn (decode b) = [])
   \<and> (values_of (u ''%L'') b = [] \<longrightarrow> cn_code (decode b) = [])
   \<and> (values_of (u ''%Z'') b = [] \<longrightarrow> citations (decode b) = 0 \<and> downloads (decode b) = 0)"
  by (simp add: decode_def decode_fields_def values_of_def last_or_def List.map_filter_def)

text \<open>
  A statistics line whose count has more digits than \<^verbatim>\<open>int\<close> converts makes the loop
  raise \<^verbatim>\<open>ValueError\<close>, which \<^verbatim>\<open>parse\<close> does not catch.
\<close>

lemma overlong_count_raises:
  assumes "int_max_str_digits < n"
  shows "set_field paper (u ''%Z'') (cited_label @ replicate n 0x30) = Inl ValueError"
proof -
  from assms obtain m where n: "n = Suc m"
    by (cases n) (simp_all add: int_max_str_digits_def)
  have "count_at cited_label (cited_label @ replicate n 0x30) = Some (replicate n 0x30)"
    unfolding n
    by (simp add: count_at_def startswith_def cited_label_def is_space_def is_decimal_ascii
        takeWhile_replicate dropWhile_replicate Let_def)
  then have s: "search_count cited_label (cited_label @ replicate n 0x30) = Some (replicate n 0x30)"
    by (simp add: cited_label_def)
  have "py_int (replicate n 0x30) = Inl ValueError"
    using assms by (simp add: py_int_def)
  with s show ?thesis
    by (simp add: set_field_def u_def)
qed

text \<open>
  Claim C9 as stated fails on a file that exists and does not hold UTF-8: the parse
  raises \<^verbatim>\<open>UnicodeDecodeError\<close> when it reads the file.
\<close>

theorem undecodable_file_raises:
  "sample_fs (u ''latin.enw'') = Some [0xFF]
   \<and> parse sample_fs (u ''latin.enw'') = Inl UnicodeDecodeError"
  by (simp add: sample_fs_def parse_def in_range_def u_def)

text \<open>
  Claim C9, amended. The parse fails with the missing-file error exactly when the path
  names no file. A file that is not UTF-8 fails with the decoding error. For a file of
  UTF-8 text whose counts fit, the parse returns a list of records, which may be empty:
  the records of the well-formed blocks of the text, line ends normalised; blocks that
  are empty or short and records without a title are left out, and a field that the
  block does not give has its default (lemma \<open>decode_defaults\<close>).
\<close>

theorem parse_failures:
  "(parse fs file_path = Inl FileNotFoundError \<longleftrightarrow> fs file_path = None)
   \<and> (fs file_path = Some bytes \<and> utf8_decode bytes = None \<longrightarrow>
        parse fs file_path = Inl UnicodeDecodeError)
   \<and> (fs file_path = Some bytes \<and> utf8_decode bytes = Some text
        \<and> list_all long_counts_fit (candidate_blocks (universal_newlines text)) \<longrightarrow>
        parse fs file_path =
          Inr (map decode (filter well_formed (candidate_blocks (universal_newlines text)))))"
proof -
  have "parse fs file_path = Inl FileNotFoundError \<longleftrightarrow> fs file_path = None"
    by (auto simp add: parse_def parse_content_decode split: option.splits if_splits)
  then show ?thesis
    by (auto simp add: parse_def parse_content_decode)
qed

theorem parse_failures_witness:
  "sample_fs (u ''missing.enw'') = None
   \<and> parse sample_fs (u ''missing.enw'') = Inl FileNotFoundError
   \<and> parse sample_fs (u ''latin.enw'') = Inl UnicodeDecodeError
   \<and> parse sample_fs (u ''audit.enw'') =
       Inr [new_paper\<lparr>title := u ''Audit '' @ [0x5BA1], authors := [u ''Li'']\<rparr>]"
proof -
  let ?text = "u ''%0 Journal Article\<newline>%T Big data and audit quality \<newline>%A Li''
     @ [0x0D, 0x0A] @ u ''%T Audit '' @ [0x5BA1]"
  let ?block = "u ''%0 Journal Article\<newline>%T Big data and audit quality \<newline>%A Li\<newline>%T Audit '' @ [0x5BA1]"
  have none: "sample_fs (u ''missing.enw'') = None"
    by (simp add: sample_fs_def u_def)
  have latin: "sample_fs (u ''latin.enw'') = Some [0xFF]" "utf8_decode [0xFF] = None"
    by (simp_all add: sample_fs_def in_range_def u_def)
  have some: "sample_fs (u ''audit.enw'') = Some audit_bytes"
    by (simp add: sample_fs_def)
  have dec: "utf8_decode audit_bytes = Some ?text"
    by (simp add: audit_bytes_def in_range_def u_def)
  have blocks: "candidate_blocks (universal_newlines ?text) = [[], ?block]"
    by (simp add: candidate_blocks_def parse_eval)
  have fit: "list_all long_counts_fit (candidate_blocks (universal_newlines ?text))"
    unfolding blocks by (simp add: block_eval spec_eval parse_eval)
  have wf: "filter well_formed (candidate_blocks (universal_newlines ?text)) = [?block]"
    unfolding blocks by (simp add: block_eval spec_eval parse_eval)
  have d: "decode ?block = new_paper\<lparr>title := u ''Audit '' @ [0x5BA1], authors := [u ''Li'']\<rparr>"
    by (simp add: spec_eval parse_eval list_all_iff)
  from parse_failures [of sample_fs "u ''missing.enw''"] none
  have m: "parse sample_fs (u ''missing.enw'') = Inl FileNotFoundError"
    by blast
  from parse_failures [of sample_fs "u ''latin.enw''" "[0xFF]"] latin
  have e: "parse sample_fs (u ''latin.enw'') = Inl UnicodeDecodeError"
    by blast
  from parse_failures [of sample_fs "u ''audit.enw''" audit_bytes ?text] some dec fit
  have "parse sample_fs (u ''audit.enw'') =
     Inr (map decode (filter well_formed (candidate_blocks (universal_newlines ?text))))"
    by blast
  with wf d have a: "parse sample_fs (u ''audit.enw'') =
       Inr [new_paper\<lparr>title := u ''Audit '' @ [0x5BA1], authors := [u ''Li'']\<rparr>]"
    by simp
  from none m e a show ?thesis
    by simp
qed

section \<open>Corpus statistics\<close>

lemma stats_years_sorted_set:
  "stats_years (basic_stats ps) = sorted_list_of_set {y \<in> year ` set ps. 2000 < y}"
proof -
  have "set [year p. p \<leftarrow> ps, 2000 < year p] = {y \<in> year ` set ps. 2000 < y}"
    by auto
  then show ?thesis
    by (simp add: basic_stats_def sorted_list_of_set_sort_remdups [symmetric] del: set_concat)
qed

lemma stats_years_filter:
  "stats_years (basic_stats [p \<leftarrow> ps. 2000 < year p]) = stats_years (basic_stats ps)"
proof -
  have "[year p. p \<leftarrow> [p \<leftarrow> ps. 2000 < year p], 2000 < year p] = [year p. p \<leftarrow> ps, 2000 < year p]"
    by (induction ps) auto
  then show ?thesis by (simp add: basic_stats_def)
qed

text \<open>The other counters count over every record of the corpus, whatever its year.\<close>

lemma stats_counters:
  "stats_authors (basic_stats ps) = card (\<Union>p \<in> set ps. set (authors p))
   \<and> stats_journals (basic_stats ps) = card {j \<in> journal ` set ps. j \<noteq> []}
   \<and> stats_institutions (basic_stats ps) = card {i \<in> institution ` set ps. i \<noteq> []}"
proof -
  have a: "set [a. p \<leftarrow> ps, a \<leftarrow> authors p] = (\<Union>p \<in> set ps. set (authors p))"
    by auto
  have j: "set [journal p. p \<leftarrow> ps, journal p \<noteq> []] = {j \<in> journal ` set ps. j \<noteq> []}"
    by auto
  have i: "set [institution p. p \<leftarrow> ps, institution p \<noteq> []] = {i \<in> institution ` set ps. i \<noteq> []}"
    by auto
  show ?thesis
    unfolding a [symmetric] j [symmetric] i [symmetric]
    by (simp add: basic_stats_def length_remdups_card_conv del: set_concat)
qed

text \<open>
  Claim C8. The \<^verbatim>\<open>years\<close> entry of the statistics that \<^verbatim>\<open>quick_parse\<close> computes is the
  ascending list of the distinct years above 2000 in the corpus. It is the list the corpus
  without its records of year 2000 or earlier would give, so such a record adds no entry
  and moves neither end of the list (the span the reports print is its first and last
  element); no year of 2000 or earlier is in it. Such a record still counts: \<^verbatim>\<open>total\<close>
  is the number of all records, and the other counters are those of the authors, the
  journals and the institutions of all records.
\<close>

theorem basic_stats_years:
  "stats_years (basic_stats ps) = sorted_list_of_set {y \<in> year ` set ps. 2000 < y}
   \<and> stats_years (basic_stats ps) = stats_years (basic_stats [p \<leftarrow> ps. 2000 < year p])
   \<and> (\<forall>p \<in> set ps. year p \<le> 2000 \<longrightarrow> year p \<notin> set (stats_years (basic_stats ps)))
   \<and> stats_total (basic_stats ps) = length ps
   \<and> stats_authors (basic_stats ps) = card (\<Union>p \<in> set ps. set (authors p))
   \<and> stats_journals (basic_stats ps) = card {j \<in> journal ` set ps. j \<noteq> []}
   \<and> stats_institutions (basic_stats ps) = card {i \<in> institution ` set ps. i \<noteq> []}"
proof -
  have "\<forall>p \<in> set ps. year p \<le> 2000 \<longrightarrow> year p \<notin> set (stats_years (basic_stats ps))"
    unfolding stats_years_sorted_set by auto
  moreover have "stats_total (basic_stats ps) = length ps"
    by (simp add: basic_stats_def)
  ultimately show ?thesis
    using stats_years_sorted_set [of ps] stats_years_filter [of ps] stats_counters [of ps]
    by simp
qed

theorem basic_stats_years_witness:
  "stats_years (basic_stats [new_paper\<lparr>year := 1998, authors := [u ''Li'']\<rparr>,
       new_paper\<lparr>year := 2024\<rparr>, new_paper\<lparr>year := 2021\<rparr>, new_paper\<lparr>year := 2024\<rparr>])
     = [2021, 2024]
   \<and> stats_total (basic_stats [new_paper\<lparr>year := 1998, authors := [u ''Li'']\<rparr>,
       new_paper\<lparr>year := 2024\<rparr>, new_paper\<lparr>year := 2021\<rparr>, new_paper\<lparr>year := 2024\<rparr>]) = 4
   \<and> stats_authors (basic_stats [new_paper\<lparr>year := 1998, authors := [u ''Li'']\<rparr>,
       new_paper\<lparr>year := 2024\<rparr>, new_paper\<lparr>year := 2021\<rparr>, new_paper\<lparr>year := 2024\<rparr>]) = 1
   \<and> (1998::int) \<notin> set (stats_years (basic_stats [new_paper\<lparr>year := 1998, authors := [u ''Li'']\<rparr>,
       new_paper\<lparr>year := 2024\<rparr>, new_paper\<lparr>year := 2021\<rparr>, new_paper\<lparr>year := 2024\<rparr>]))"
proof -
  let ?ps = "[new_paper\<lparr>year := 1998, authors := [u ''Li'']\<rparr>,
       new_paper\<lparr>year := 2024\<rparr>, new_paper\<lparr>year := 2021\<rparr>, new_paper\<lparr>year := 2024\<rparr>]"
  note th = basic_stats_years [of ?ps]
  have years: "stats_years (basic_stats ?ps) = [2021, 2024]"
    by (simp add: basic_stats_def new_paper_def)
  have authors: "stats_authors (basic_stats ?ps) = 1"
    by (simp add: basic_stats_def new_paper_def)
  have "stats_total (basic_stats ?ps) = length ?ps"
    using th by blast
  then have total: "stats_total (basic_stats ?ps) = 4"
    by simp
  have "\<forall>p \<in> set ?ps. year p \<le> 2000 \<longrightarrow> year p \<notin> set (stats_years (basic_stats ?ps))"
    using th by blast
  then have "year (new_paper\<lparr>year := 1998, authors := [u ''Li'']\<rparr>)
      \<notin> set (stats_years (basic_stats ?ps))"
    by simp
  then have "(1998::int) \<notin> set (stats_years (basic_stats ?ps))"
    by simp
  with years total authors show ?thesis
    by blast
qed

section \<open>The operations and their input\<close>


section \<open>Counters\<close>

lemma map_of_counter_incr:
  "map_of (counter_incr c k) = (map_of c)(k \<mapsto> counter_get c k + 1)"
  by (induction c) (auto simp add: counter_get_def fun_eq_iff)

lemma counter_get_incr:
  "counter_get (counter_incr c k) k1 = counter_get c k1 + (if k = k1 then 1 else 0)"
  by (simp add: counter_get_def map_of_counter_incr)

lemma map_fst_counter_incr:
  "map fst (counter_incr c k) = (if k \<in> set (map fst c) then map fst c else map fst c @ [k])"
proof (induction c)
  case Nil
  then show ?case by simp
next
  case (Cons x c)
  obtain k1 n where x: "x = (k1, n)"
    by (cases x)
  from Cons show ?case
    unfolding x by (cases "k1 = k") (simp_all del: set_map)
qed

lemma keys_counter_incr: "set (map fst (counter_incr c k)) = insert k (set (map fst c))"
  by (simp add: map_fst_counter_incr insert_absorb)

lemma distinct_counter_incr:
  "distinct (map fst c) \<Longrightarrow> distinct (map fst (counter_incr c k))"
  by (simp add: map_fst_counter_incr)

text \<open>Counting the elements of a list, one by one, from a counter.\<close>

lemma counter_get_fold:
  "counter_get (fold (\<lambda>k c. counter_incr c k) ks c) k = counter_get c k + count_list ks k"
  by (induction ks arbitrary: c) (simp_all add: counter_get_incr)

lemma keys_fold:
  "set (map fst (fold (\<lambda>k c. counter_incr c k) ks c)) = set (map fst c) \<union> set ks"
  by (induction ks arbitrary: c) (simp_all add: keys_counter_incr del: set_map)

lemma distinct_fold:
  "distinct (map fst c) \<Longrightarrow> distinct (map fst (fold (\<lambda>k c. counter_incr c k) ks c))"
  by (induction ks arbitrary: c) (simp_all add: distinct_counter_incr)

lemma fold_if_filter:
  "fold (\<lambda>x c. if P x then f x c else c) xs = fold f (filter P xs)"
  by (induction xs) (simp_all add: fun_eq_iff)

lemma fold_concat: "fold (\<lambda>p. fold f (g p)) ps = fold f (concat (map g ps))"
  by (induction ps) (simp_all add: fun_eq_iff)

lemma keyword_freq_fold:
  "keyword_freq ps =
     fold (\<lambda>k c. counter_incr c k) (concat (map (\<lambda>p. [kw \<leftarrow> keywords p. kw \<noteq> []]) ps)) []"
proof -
  have inner: "(\<lambda>paper. fold (\<lambda>kw c. if kw \<noteq> [] then counter_incr c kw else c) (keywords paper))
        = (\<lambda>paper. fold (\<lambda>k c. counter_incr c k) [kw \<leftarrow> keywords paper. kw \<noteq> []])"
    by (rule ext) (rule fold_if_filter)
  have "keyword_freq ps =
      fold (\<lambda>paper. fold (\<lambda>k c. counter_incr c k) [kw \<leftarrow> keywords paper. kw \<noteq> []]) ps []"
    unfolding keyword_freq_def inner ..
  also have "\<dots> = fold (\<lambda>k c. counter_incr c k)
      (concat (map (\<lambda>p. [kw \<leftarrow> keywords p. kw \<noteq> []]) ps)) []"
    by (simp only: fold_concat)
  finally show ?thesis .
qed

lemma count_list_concat:
  "count_list (concat xss) k = sum_list (map (\<lambda>xs. count_list xs k) xss)"
  by (induction xss) simp_all

lemma count_list_filter_other:
  "P k \<Longrightarrow> count_list (filter P xs) k = count_list xs k"
  by (induction xs) auto

lemma count_list_filter_none:
  "\<not> P k \<Longrightarrow> count_list (filter P xs) k = 0"
  by (induction xs) auto

lemma counter_get_keyword_freq:
  "counter_get (keyword_freq ps) k = (if k = [] then 0 else keyword_count ps k)"
  by (simp add: keyword_freq_fold counter_get_fold count_list_concat comp_def keyword_count_def
      count_list_filter_other count_list_filter_none) (simp add: counter_get_def)

lemma keys_keyword_freq:
  "set (map fst (keyword_freq ps)) = {k. k \<noteq> [] \<and> (\<exists>p \<in> set ps. k \<in> set (keywords p))}"
  unfolding keyword_freq_fold keys_fold by auto

lemma distinct_keyword_freq: "distinct (map fst (keyword_freq ps))"
  by (simp add: keyword_freq_fold distinct_fold)

lemma counter_get_member:
  "distinct (map fst c) \<Longrightarrow> (k, n) \<in> set c \<Longrightarrow> counter_get c k = n"
  by (simp add: counter_get_def)

section \<open>The keyword graph\<close>

lemma pairs_filter:
  "pairs (filter P xs) = [pr \<leftarrow> pairs xs. P (fst pr) \<and> P (snd pr)]"
  by (induction xs) (simp_all add: filter_map comp_def)

lemma pairs_in_list: "(a, b) \<in> set (pairs xs) \<Longrightarrow> a \<in> set xs \<and> b \<in> set xs"
  by (induction xs) auto

lemma sorted_pair_eq:
  "a \<noteq> b \<Longrightarrow> k1 \<noteq> k2 \<Longrightarrow>
     sorted_pair a b = sorted_pair k1 k2 \<longleftrightarrow> (a, b) = (k1, k2) \<or> (a, b) = (k2, k1)"
  by (auto simp add: sorted_pair_def)

lemma sorted_pair_less: "a \<noteq> b \<Longrightarrow> fst (sorted_pair a b) < snd (sorted_pair a b)"
  by (auto simp add: sorted_pair_def)

lemma cooccurrence_inner:
  "fold (\<lambda>pr c. case pr of (kw1, kw2) \<Rightarrow>
            if kw1 \<noteq> kw2 then counter_incr c (sorted_pair kw1 kw2) else c) prs
   = fold (\<lambda>k c. counter_incr c k)
       (map (\<lambda>pr. sorted_pair (fst pr) (snd pr)) [pr \<leftarrow> prs. fst pr \<noteq> snd pr])"
  by (induction prs) (auto simp add: fun_eq_iff)

lemma cooccurrence_fold:
  "cooccurrence V ps = fold (\<lambda>k c. counter_incr c k) (pair_keys V ps) []"
proof -
  have "cooccurrence V ps =
      fold (\<lambda>paper. fold (\<lambda>k c. counter_incr c k)
              (map (\<lambda>pr. sorted_pair (fst pr) (snd pr))
                 [pr \<leftarrow> pairs [kw \<leftarrow> keywords paper. kw \<in> V]. fst pr \<noteq> snd pr])) ps []"
    unfolding cooccurrence_def cooccurrence_inner ..
  also have "\<dots> = fold (\<lambda>k c. counter_incr c k) (pair_keys V ps) []"
    unfolding pair_keys_def by (simp only: fold_concat)
  finally show ?thesis .
qed

lemma count_pair_keys_one:
  assumes "k1 \<noteq> k2"
  shows "count_list (map (\<lambda>pr. sorted_pair (fst pr) (snd pr)) [pr \<leftarrow> prs. fst pr \<noteq> snd pr])
           (sorted_pair k1 k2)
         = length [pr \<leftarrow> prs. pr = (k1, k2) \<or> pr = (k2, k1)]"
proof (induction prs)
  case Nil
  then show ?case by simp
next
  case (Cons pr prs)
  obtain a b where pr: "pr = (a, b)" by (cases pr)
  show ?case
  proof (cases "a = b")
    case True
    with assms Cons show ?thesis unfolding pr by auto
  next
    case False
    with assms Cons sorted_pair_eq [of a b k1 k2] show ?thesis unfolding pr by auto
  qed
qed

lemma filter_filter_pairs:
  assumes "k1 \<in> V" "k2 \<in> V"
  shows "[pr \<leftarrow> pairs [kw \<leftarrow> kws. kw \<in> V]. pr = (k1, k2) \<or> pr = (k2, k1)]
         = [pr \<leftarrow> pairs kws. pr = (k1, k2) \<or> pr = (k2, k1)]"
  unfolding pairs_filter filter_filter
  by (rule filter_cong) (use assms in auto)

lemma filter_pairs_outside:
  assumes "k1 \<notin> V \<or> k2 \<notin> V"
  shows "[pr \<leftarrow> pairs [kw \<leftarrow> kws. kw \<in> V]. pr = (k1, k2) \<or> pr = (k2, k1)] = []"
  unfolding pairs_filter filter_filter
  using assms by (auto simp add: filter_empty_conv)

lemma count_pair_keys:
  assumes "k1 \<noteq> k2"
  shows "count_list (pair_keys V ps) (sorted_pair k1 k2)
         = (if k1 \<in> V \<and> k2 \<in> V then cooccurrences ps k1 k2 else 0)"
proof (cases "k1 \<in> V \<and> k2 \<in> V")
  case True
  then show ?thesis
    by (simp add: pair_keys_def count_list_concat comp_def count_pair_keys_one [OF assms]
        filter_filter_pairs cooccurrences_def)
next
  case False
  then have out: "k1 \<notin> V \<or> k2 \<notin> V" by simp
  have "count_list (pair_keys V ps) (sorted_pair k1 k2) = 0"
    by (simp add: pair_keys_def count_list_concat comp_def count_pair_keys_one [OF assms]
        filter_pairs_outside [OF out])
  moreover from False have "(if k1 \<in> V \<and> k2 \<in> V then cooccurrences ps k1 k2 else 0) = 0"
    by (rule if_not_P)
  ultimately show ?thesis by (simp only:)
qed

lemma pair_keys_ordered:
  assumes "(a, b) \<in> set (pair_keys V ps)"
  shows "a < b"
proof -
  from assms obtain x y where "x \<noteq> y" "(a, b) = sorted_pair x y"
    unfolding pair_keys_def by auto
  with sorted_pair_less [of x y] show ?thesis
    by (metis fst_conv snd_conv)
qed

lemma adj_add_edge:
  "adj (add_edge G a b w) x y =
     (if (x, y) = (a, b) \<or> (x, y) = (b, a) then Some w else adj G x y)"
  by (auto simp add: add_edge_def add_node_def set_weight_def Let_def)

lemma node_add_edge:
  "node (add_edge G a b w) x = (if (x = a \<or> x = b) \<and> node G x = None then Some (\<lambda>k. None) else node G x)"
  by (auto simp add: add_edge_def add_node_def set_weight_def Let_def)

lemma set_node_attr_present:
  assumes "node G n \<noteq> None"
  shows "\<exists>G1. set_node_attr G n key x = Inr G1 \<and> adj G1 = adj G
           \<and> (\<forall>m. node G1 m \<noteq> None \<longleftrightarrow> node G m \<noteq> None)"
  using assms by (auto simp add: set_node_attr_def)

lemma keyword_edge_step:
  "\<exists>G2. (case set_node_attr (add_edge G a b w) a key x of
            Inl e \<Rightarrow> Inl e
          | Inr G1 \<Rightarrow> (case set_node_attr G1 b key y of Inl e \<Rightarrow> Inl e | Inr G2 \<Rightarrow> f G2))
         = f G2
       \<and> adj G2 = adj (add_edge G a b w)"
proof -
  have na: "node (add_edge G a b w) a \<noteq> None" and nb: "node (add_edge G a b w) b \<noteq> None"
    by (auto simp add: node_add_edge)
  from set_node_attr_present [OF na, of key x] obtain G1 where
    G1: "set_node_attr (add_edge G a b w) a key x = Inr G1" "adj G1 = adj (add_edge G a b w)"
      "\<forall>m. node G1 m \<noteq> None \<longleftrightarrow> node (add_edge G a b w) m \<noteq> None"
    by blast
  from G1(3) nb have "node G1 b \<noteq> None"
    by blast
  from set_node_attr_present [OF this, of key y] obtain G2 where
    G2: "set_node_attr G1 b key y = Inr G2" "adj G2 = adj G1"
    by blast
  from G1(1,2) G2 show ?thesis
    by (intro exI [of _ G2]) simp
qed

lemma sorted_pair_is:
  "a < b \<Longrightarrow> sorted_pair x y = (a, b) \<longleftrightarrow> (x, y) = (a, b) \<or> (x, y) = (b, a)"
  by (auto simp add: sorted_pair_def)

lemma add_keyword_edges_adj:
  assumes "distinct (map fst items)" "\<forall>it \<in> set items. fst (fst it) < snd (fst it)"
  shows "\<exists>G1. add_keyword_edges freq items G = Inr G1
           \<and> (\<forall>x y. adj G1 x y =
                 (case map_of items (sorted_pair x y) of
                    None \<Rightarrow> adj G x y
                  | Some w \<Rightarrow> if 2 \<le> w then Some (int w) else adj G x y))"
  using assms
proof (induction items arbitrary: G)
  case Nil
  then show ?case by simp
next
  case (Cons it items)
  obtain a b w where it: "it = ((a, b), w)"
    by (cases it) auto
  from Cons.prems have ab: "a < b" and fresh: "map_of items (a, b) = None"
    and rest: "distinct (map fst items)" "\<forall>it \<in> set items. fst (fst it) < snd (fst it)"
    unfolding it by (auto simp add: map_of_eq_None_iff)
  show ?case
  proof (cases "2 \<le> w")
    case False
    from Cons.IH [OF rest, of G] obtain G1 where
      G1: "add_keyword_edges freq items G = Inr G1"
      "\<forall>x y. adj G1 x y =
                 (case map_of items (sorted_pair x y) of
                    None \<Rightarrow> adj G x y
                  | Some w \<Rightarrow> if 2 \<le> w then Some (int w) else adj G x y)"
      by blast
    with False fresh show ?thesis
      unfolding it by auto
  next
    case True
    from keyword_edge_step [where G = G and a = a and b = b and w = "int w" and key = "''freq''"
        and x = "int (counter_get freq a)" and y = "int (counter_get freq b)"
        and f = "add_keyword_edges freq items"]
    obtain G2 where
      step: "add_keyword_edges freq (it # items) G = add_keyword_edges freq items G2"
      and adj2: "adj G2 = adj (add_edge G a b (int w))"
      unfolding it using True by auto
    from Cons.IH [OF rest, of G2] obtain G1 where
      G1: "add_keyword_edges freq items G2 = Inr G1"
      "\<forall>x y. adj G1 x y =
                 (case map_of items (sorted_pair x y) of
                    None \<Rightarrow> adj G2 x y
                  | Some w \<Rightarrow> if 2 \<le> w then Some (int w) else adj G2 x y)"
      by blast
    have "adj G1 x y =
                 (case map_of (it # items) (sorted_pair x y) of
                    None \<Rightarrow> adj G x y
                  | Some w \<Rightarrow> if 2 \<le> w then Some (int w) else adj G x y)" for x y
    proof (cases "sorted_pair x y = (a, b)")
      case True
      with G1(2) fresh adj2 \<open>2 \<le> w\<close> sorted_pair_is [OF ab, of x y] show ?thesis
        unfolding it by (simp add: adj_add_edge)
    next
      case False
      with sorted_pair_is [OF ab, of x y] have "adj (add_edge G a b (int w)) x y = adj G x y"
        by (auto simp add: adj_add_edge)
      with adj2 have "adj G2 x y = adj G x y"
        by simp
      with G1(2) False show ?thesis
        unfolding it by (simp split: option.split)
    qed
    with step G1(1) show ?thesis
      by simp
  qed
qed

lemma sum_list_pos_iff:
  "0 < sum_list (map f xs) \<longleftrightarrow> (\<exists>x \<in> set xs. 0 < (f x :: nat))"
  by (induction xs) auto

lemma count_list_pos: "0 < count_list xs x \<longleftrightarrow> x \<in> set xs"
  by (induction xs) auto

lemma keyword_count_pos:
  "0 < keyword_count ps k \<longleftrightarrow> (\<exists>p \<in> set ps. k \<in> set (keywords p))"
  by (simp add: keyword_count_def sum_list_pos_iff count_list_pos)

lemma cooccurrence_positive:
  assumes "0 < cooccurrences ps k1 k2"
  shows "0 < keyword_count ps k1 \<and> 0 < keyword_count ps k2"
proof -
  from assms obtain p where p: "p \<in> set ps"
    and "0 < length [pr \<leftarrow> pairs (keywords p). pr = (k1, k2) \<or> pr = (k2, k1)]"
    unfolding cooccurrences_def sum_list_pos_iff by blast
  then have "(k1, k2) \<in> set (pairs (keywords p)) \<or> (k2, k1) \<in> set (pairs (keywords p))"
    by (auto simp add: filter_empty_conv)
  then have "k1 \<in> set (keywords p) \<and> k2 \<in> set (keywords p)"
    by (auto dest: pairs_in_list)
  with p show ?thesis
    unfolding keyword_count_pos by blast
qed

lemma valid_keywords_frequent:
  "k \<in> set [kw. (kw, n) \<leftarrow> keyword_freq ps, min_freq \<le> int n]
     \<longleftrightarrow> frequent ps min_freq k \<and> 0 < keyword_count ps k"
proof -
  have "k \<in> set [kw. (kw, n) \<leftarrow> keyword_freq ps, min_freq \<le> int n]
     \<longleftrightarrow> (\<exists>n. (k, n) \<in> set (keyword_freq ps) \<and> min_freq \<le> int n)"
    by auto
  also have "\<dots> \<longleftrightarrow> k \<in> set (map fst (keyword_freq ps))
        \<and> min_freq \<le> int (counter_get (keyword_freq ps) k)"
    using counter_get_member [OF distinct_keyword_freq] by force
  also have "\<dots> \<longleftrightarrow> frequent ps min_freq k \<and> 0 < keyword_count ps k"
    unfolding keys_keyword_freq counter_get_keyword_freq frequent_def keyword_count_pos
    by auto
  finally show ?thesis .
qed

lemma keyword_graph_adj:
  "\<exists>G. fst (build_keywords self min_freq) = Inr G
     \<and> (\<forall>k1 k2. adj G k1 k2 =
           (if k1 \<noteq> k2 \<and> frequent (papers self) min_freq k1 \<and> frequent (papers self) min_freq k2
               \<and> 2 \<le> cooccurrences (papers self) k1 k2
            then Some (int (cooccurrences (papers self) k1 k2)) else None))"
proof -
  define ps where "ps = papers self"
  define V where "V = set [kw. (kw, n) \<leftarrow> keyword_freq ps, min_freq \<le> int n]"
  define items where "items = cooccurrence V ps"
  have inV: "k \<in> V \<longleftrightarrow> frequent ps min_freq k \<and> 0 < keyword_count ps k" for k
    unfolding V_def by (rule valid_keywords_frequent)
  have d: "distinct (map fst items)"
    by (simp add: items_def cooccurrence_fold distinct_fold)
  have keys: "set (map fst items) = set (pair_keys V ps)"
    unfolding items_def cooccurrence_fold keys_fold by simp
  have o: "\<forall>it \<in> set items. fst (fst it) < snd (fst it)"
  proof
    fix it assume "it \<in> set items"
    then have "fst it \<in> set (pair_keys V ps)"
      using keys by auto
    then have "(fst (fst it), snd (fst it)) \<in> set (pair_keys V ps)"
      by simp
    then show "fst (fst it) < snd (fst it)"
      by (rule pair_keys_ordered)
  qed
  from add_keyword_edges_adj [OF d o, of "keyword_freq ps" empty_graph]
  obtain G where G: "add_keyword_edges (keyword_freq ps) items empty_graph = Inr G"
    and a: "\<forall>x y. adj G x y =
                 (case map_of items (sorted_pair x y) of
                    None \<Rightarrow> adj empty_graph x y
                  | Some w \<Rightarrow> if 2 \<le> w then Some (int w) else adj empty_graph x y)"
    by blast
  have cnt: "counter_get items key = count_list (pair_keys V ps) key" for key
    by (simp add: items_def cooccurrence_fold counter_get_fold) (simp add: counter_get_def)
  have adj1: "adj G x y =
      (if 2 \<le> count_list (pair_keys V ps) (sorted_pair x y)
       then Some (int (count_list (pair_keys V ps) (sorted_pair x y))) else None)" for x y
    using a cnt [of "sorted_pair x y"]
    by (simp add: counter_get_def empty_graph_def split: option.splits)
  have "adj G k1 k2 =
           (if k1 \<noteq> k2 \<and> frequent ps min_freq k1 \<and> frequent ps min_freq k2
               \<and> 2 \<le> cooccurrences ps k1 k2
            then Some (int (cooccurrences ps k1 k2)) else None)" for k1 k2
  proof (cases "k1 = k2")
    case True
    have "(k2, k2) \<notin> set (pair_keys V ps)"
      using pair_keys_ordered [of k2 k2 V ps] by auto
    then have "count_list (pair_keys V ps) (k2, k2) = 0"
      by (simp add: count_list_0_iff)
    with True show ?thesis
      by (simp add: adj1 sorted_pair_def)
  next
    case False
    show ?thesis
      using False cooccurrence_positive [of ps k1 k2]
      by (auto simp add: adj1 count_pair_keys [OF False] inV)
  qed
  moreover have "fst (build_keywords self min_freq) = Inr G"
    using G by (simp add: build_keywords_def Let_def items_def V_def ps_def)
  ultimately show ?thesis
    unfolding ps_def by blast
qed

lemma cooccurrences_commute: "cooccurrences ps k1 k2 = cooccurrences ps k2 k1"
proof -
  have "(\<lambda>pr. pr = (k1, k2) \<or> pr = (k2, k1)) = (\<lambda>pr. pr = (k2, k1) \<or> pr = (k1, k2))"
    by auto
  then show ?thesis
    by (simp add: cooccurrences_def)
qed

text \<open>
  Claim C3. \<^verbatim>\<open>build_keywords\<close> returns a graph, and in it two keywords are joined
  exactly when they differ, both are frequent (their frequency over the corpus reaches
  \<open>min_freq\<close>) and they co-occur twice or more over the whole corpus; the weight of the
  edge is the number of their co-occurrences. So a pair that co-occurs once has no edge,
  whatever \<open>min_freq\<close> is; a pair of frequent keywords that co-occurs twice has an edge
  of weight 2, in both directions; and the two thresholds are separate conditions, each
  of which alone can keep an edge out. The count is that of the whole keyword lists: the
  vocabulary filter removes only the pairs of a keyword that is not frequent.
\<close>

theorem keyword_edge_threshold:
  "\<exists>G. fst (build_keywords self min_freq) = Inr G
     \<and> (\<forall>k1 k2. cooccurrences (papers self) k1 k2 = 1 \<longrightarrow> \<not> has_edge G k1 k2)
     \<and> (\<forall>k1 k2. k1 \<noteq> k2 \<and> frequent (papers self) min_freq k1 \<and> frequent (papers self) min_freq k2
            \<and> cooccurrences (papers self) k1 k2 = 2
          \<longrightarrow> adj G k1 k2 = Some 2 \<and> adj G k2 k1 = Some 2)
     \<and> (\<forall>k1 k2. has_edge G k1 k2 \<longleftrightarrow>
            k1 \<noteq> k2 \<and> frequent (papers self) min_freq k1 \<and> frequent (papers self) min_freq k2
            \<and> 2 \<le> cooccurrences (papers self) k1 k2)
     \<and> (\<forall>k1 k2 w. adj G k1 k2 = Some w \<longrightarrow> w = int (cooccurrences (papers self) k1 k2))"
proof -
  from keyword_graph_adj [of self min_freq] obtain G where
    G: "fst (build_keywords self min_freq) = Inr G"
    and a: "\<And>k1 k2. adj G k1 k2 =
           (if k1 \<noteq> k2 \<and> frequent (papers self) min_freq k1 \<and> frequent (papers self) min_freq k2
               \<and> 2 \<le> cooccurrences (papers self) k1 k2
            then Some (int (cooccurrences (papers self) k1 k2)) else None)"
    by blast
  have one: "\<forall>k1 k2. cooccurrences (papers self) k1 k2 = 1 \<longrightarrow> \<not> has_edge G k1 k2"
    by (simp add: has_edge_def a)
  have two: "\<forall>k1 k2. k1 \<noteq> k2 \<and> frequent (papers self) min_freq k1 \<and> frequent (papers self) min_freq k2
            \<and> cooccurrences (papers self) k1 k2 = 2
          \<longrightarrow> adj G k1 k2 = Some 2 \<and> adj G k2 k1 = Some 2"
    using cooccurrences_commute [of "papers self"] by (auto simp add: a)
  have edge: "\<forall>k1 k2. has_edge G k1 k2 \<longleftrightarrow>
            k1 \<noteq> k2 \<and> frequent (papers self) min_freq k1 \<and> frequent (papers self) min_freq k2
            \<and> 2 \<le> cooccurrences (papers self) k1 k2"
    by (simp add: has_edge_def a)
  have weight: "\<forall>k1 k2 w. adj G k1 k2 = Some w \<longrightarrow> w = int (cooccurrences (papers self) k1 k2)"
    by (auto simp add: a split: if_splits)
  from G one two edge weight show ?thesis
    by blast
qed

theorem keyword_edge_threshold_witness:
  "(\<exists>G. fst (build_keywords \<lparr>papers = keyword_corpus\<rparr> 2) = Inr G
       \<and> adj G (u ''a'') (u ''b'') = Some 2 \<and> adj G (u ''b'') (u ''a'') = Some 2
       \<and> \<not> has_edge G (u ''a'') (u ''c'') \<and> \<not> has_edge G (u ''c'') (u ''d''))
   \<and> (\<exists>G. fst (build_keywords \<lparr>papers = keyword_corpus\<rparr> 3) = Inr G
       \<and> \<not> has_edge G (u ''a'') (u ''b''))
   \<and> cooccurrences keyword_corpus (u ''a'') (u ''b'') = 2
   \<and> cooccurrences keyword_corpus (u ''a'') (u ''c'') = 1
   \<and> keyword_count keyword_corpus (u ''a'') = 2"
proof -
  have ab: "cooccurrences keyword_corpus (u ''a'') (u ''b'') = 2"
    and ac: "cooccurrences keyword_corpus (u ''a'') (u ''c'') = 1"
    and cd: "cooccurrences keyword_corpus (u ''c'') (u ''d'') = 1"
    and ka: "keyword_count keyword_corpus (u ''a'') = 2"
    and kb: "keyword_count keyword_corpus (u ''b'') = 2"
    by (simp_all add: count_eval keyword_corpus_def new_paper_def u_def)
  have fa: "frequent keyword_corpus 2 (u ''a'')" and fb: "frequent keyword_corpus 2 (u ''b'')"
    and na: "\<not> frequent keyword_corpus 3 (u ''a'')"
    using ka kb by (simp_all add: frequent_def u_def)
  have ne: "u ''a'' \<noteq> u ''b''"
    by (simp add: u_def)
  from keyword_edge_threshold [of "\<lparr>papers = keyword_corpus\<rparr>" 2] obtain G where
    G: "fst (build_keywords \<lparr>papers = keyword_corpus\<rparr> 2) = Inr G"
    and one: "\<And>k1 k2. cooccurrences keyword_corpus k1 k2 = 1 \<Longrightarrow> \<not> has_edge G k1 k2"
    and two: "\<And>k1 k2. k1 \<noteq> k2 \<and> frequent keyword_corpus 2 k1 \<and> frequent keyword_corpus 2 k2
            \<and> cooccurrences keyword_corpus k1 k2 = 2
          \<Longrightarrow> adj G k1 k2 = Some 2 \<and> adj G k2 k1 = Some 2"
    by auto
  from keyword_edge_threshold [of "\<lparr>papers = keyword_corpus\<rparr>" 3] obtain H where
    H: "fst (build_keywords \<lparr>papers = keyword_corpus\<rparr> 3) = Inr H"
    and edge: "\<And>k1 k2. has_edge H k1 k2 \<longleftrightarrow>
            k1 \<noteq> k2 \<and> frequent keyword_corpus 3 k1 \<and> frequent keyword_corpus 3 k2
            \<and> 2 \<le> cooccurrences keyword_corpus k1 k2"
    by auto
  from two [of "u ''a''" "u ''b''"] ne fa fb ab
  have e2: "adj G (u ''a'') (u ''b'') = Some 2 \<and> adj G (u ''b'') (u ''a'') = Some 2"
    by blast
  from one [OF ac] one [OF cd]
  have e1: "\<not> has_edge G (u ''a'') (u ''c'') \<and> \<not> has_edge G (u ''c'') (u ''d'')"
    by blast
  from edge [of "u ''a''" "u ''b''"] na have e3: "\<not> has_edge H (u ''a'') (u ''b'')"
    by blast
  from G H e1 e2 e3 ab ac ka show ?thesis
    by blast
qed

section \<open>The attributes of the co-authorship nodes\<close>

lemma map_of_append_paper:
  "map_of (append_paper ap a p) = (map_of ap)(a \<mapsto> lookup_papers ap a @ [p])"
proof (induction ap)
  case Nil
  then show ?case by (simp add: lookup_papers_def)
next
  case (Cons x ap)
  obtain k ps where x: "x = (k, ps)" by (cases x)
  from Cons show ?case
    unfolding x by (auto simp add: lookup_papers_def fun_eq_iff)
qed

lemma lookup_append_paper:
  "lookup_papers (append_paper ap a p) b = lookup_papers ap b @ (if a = b then [p] else [])"
  by (simp add: lookup_papers_def [of "append_paper ap a p"] map_of_append_paper)
     (simp add: lookup_papers_def)

lemma keys_append_paper:
  "set (map fst (append_paper ap a p)) = insert a (set (map fst ap))"
proof (induction ap)
  case Nil
  then show ?case by simp
next
  case (Cons x ap)
  obtain k ps where x: "x = (k, ps)" by (cases x)
  from Cons show ?case
    unfolding x by (cases "k = a") (auto simp del: set_map)
qed

lemma lookup_author_fold:
  "lookup_papers
     (fold (\<lambda>author ap. if author \<noteq> [] then append_paper ap author p else ap) as ap) a
   = lookup_papers ap a @ (if a = [] then [] else [p. b \<leftarrow> as, b = a])"
  by (induction as arbitrary: ap) (auto simp add: lookup_append_paper)

lemma keys_author_fold:
  "set (map fst (fold (\<lambda>author ap. if author \<noteq> [] then append_paper ap author p else ap) as ap))
   = set (map fst ap) \<union> {a \<in> set as. a \<noteq> []}"
  by (induction as arbitrary: ap) (auto simp add: keys_append_paper simp del: set_map)

lemma lookup_group_fold:
  "lookup_papers
     (fold (\<lambda>paper author_papers.
              fold (\<lambda>author ap. if author \<noteq> [] then append_paper ap author paper else ap)
                   (authors paper) author_papers) ps ap) a
   = lookup_papers ap a
     @ (if a = [] then [] else concat (map (\<lambda>p. [p. b \<leftarrow> authors p, b = a]) ps))"
  by (induction ps arbitrary: ap) (auto simp add: lookup_author_fold)

lemma keys_group_fold:
  "set (map fst
     (fold (\<lambda>paper author_papers.
              fold (\<lambda>author ap. if author \<noteq> [] then append_paper ap author paper else ap)
                   (authors paper) author_papers) ps ap))
   = set (map fst ap) \<union> {a. a \<noteq> [] \<and> (\<exists>p \<in> set ps. a \<in> set (authors p))}"
  by (induction ps arbitrary: ap) (auto simp add: keys_author_fold simp del: set_map)

lemma lookup_group_by_author:
  "lookup_papers (group_by_author ps) a
   = (if a = [] then [] else concat (map (\<lambda>p. [p. b \<leftarrow> authors p, b = a]) ps))"
  unfolding group_by_author_def lookup_group_fold by (simp add: lookup_papers_def)

lemma keys_group_by_author:
  "set (map fst (group_by_author ps)) = {a. a \<noteq> [] \<and> (\<exists>p \<in> set ps. a \<in> set (authors p))}"
  unfolding group_by_author_def keys_group_fold by simp

lemma top_authors_keys:
  "set (map fst (top_authors n ap)) \<subseteq> set (map fst ap)"
proof -
  have "set (slice_to n xs) \<subseteq> set xs" for xs :: "(ustr \<times> CnkiPaper list) list"
    by (auto simp add: slice_to_def dest: in_set_takeD)
  from this [of "sort_key (\<lambda>x. - int (length (snd x))) ap"] show ?thesis
    by (auto simp add: top_authors_def)
qed

lemma node_set_weight: "node (set_weight G a b w) = node G"
  by (simp add: set_weight_def Let_def)

lemma node_count_pair:
  "node (count_pair (a, b) G) n \<noteq> None \<Longrightarrow> node G n \<noteq> None \<or> n = a \<or> n = b"
  by (auto simp add: count_pair_def node_set_weight node_add_edge split: option.splits if_splits)

lemma node_fold_count_pair:
  "node (fold count_pair prs G) n \<noteq> None \<Longrightarrow>
     node G n \<noteq> None \<or> n \<in> fst ` set prs \<or> n \<in> snd ` set prs"
proof (induction prs arbitrary: G)
  case Nil
  then show ?case by simp
next
  case (Cons pr prs)
  obtain a b where pr: "pr = (a, b)" by (cases pr)
  from Cons.IH [of "count_pair pr G"] Cons.prems
  have "node (count_pair pr G) n \<noteq> None \<or> n \<in> fst ` set prs \<or> n \<in> snd ` set prs"
    by simp
  with node_count_pair [of a b G n] show ?case
    unfolding pr by auto
qed

lemma pairs_subset: "fst ` set (pairs xs) \<subseteq> set xs \<and> snd ` set (pairs xs) \<subseteq> set xs"
  by (auto dest: pairs_in_list)

lemma node_coauthor_edges:
  "node (fold (\<lambda>paper. fold count_pair (pairs [a \<leftarrow> authors paper. a \<in> T])) ps G) n \<noteq> None
     \<Longrightarrow> node G n \<noteq> None \<or> n \<in> T"
proof (induction ps arbitrary: G)
  case Nil
  then show ?case by simp
next
  case (Cons p ps)
  let ?G1 = "fold count_pair (pairs [a \<leftarrow> authors p. a \<in> T]) G"
  from Cons.IH [of ?G1] Cons.prems have "node ?G1 n \<noteq> None \<or> n \<in> T"
    by simp
  then show ?case
  proof
    assume "node ?G1 n \<noteq> None"
    from node_fold_count_pair [OF this] pairs_subset [of "[a \<leftarrow> authors p. a \<in> T]"]
    show ?thesis by auto
  qed simp
qed

lemma group_without_repeats:
  assumes "\<forall>p \<in> set ps. count_list (authors p) a \<le> 1"
  shows "concat (map (\<lambda>p. [p. b \<leftarrow> authors p, b = a]) ps) = [p \<leftarrow> ps. a \<in> set (authors p)]"
  using assms
proof (induction ps)
  case Nil
  then show ?case by simp
next
  case (Cons p ps)
  have one: "count_list xs a \<le> 1 \<Longrightarrow> [p. b \<leftarrow> xs, b = a] = (if a \<in> set xs then [p] else [])"
    for xs :: "ustr list"
  proof (induction xs)
    case Nil
    then show ?case by simp
  next
    case (Cons x xs)
    then show ?case
      by (cases "x = a") (auto simp add: count_list_0_iff)
  qed
  from Cons one [of "authors p"] show ?case
    by simp
qed

text \<open>
  The attributes of a node come from the group that the first loop collects under the
  name of the author, which holds a record once for each time the author list of the
  record names the author. On a corpus in which no record names the author twice the
  group is the list of the papers of the author, whatever \<open>top_n\<close> and whatever edges
  were kept.
\<close>

lemma coauthor_attributes_without_repeats:
  assumes once: "\<forall>p \<in> set (papers self). count_list (authors p) a \<le> 1"
    and some: "node (fst (build_coauthorship self top_n)) a = Some attrs"
  shows "attrs ''paper_count'' = Some (int (length [p \<leftarrow> papers self. a \<in> set (authors p)]))
    \<and> attrs ''citations''
        = Some (sum_list (map citations [p \<leftarrow> papers self. a \<in> set (authors p)]))"
proof -
  define ap where "ap = group_by_author (papers self)"
  define T where "T = set (map fst (top_authors top_n ap))"
  define G where "G = fold (\<lambda>paper. fold count_pair (pairs [a \<leftarrow> authors paper. a \<in> T]))
                   (papers self) empty_graph"
  have final: "node (fst (build_coauthorship self top_n)) a =
      map_option (\<lambda>attrs. attrs(''paper_count'' \<mapsto> int (length (lookup_papers ap a)),
                                ''citations'' \<mapsto> sum_list (map citations (lookup_papers ap a))))
        (node G a)"
    by (simp add: build_coauthorship_def Let_def G_def T_def ap_def)
  from some have "node G a \<noteq> None"
    unfolding final by auto
  then have "a \<in> T"
    unfolding G_def using node_coauthor_edges [of T "papers self" empty_graph a]
    by (simp add: empty_graph_def)
  then have "a \<in> set (map fst ap)"
    unfolding T_def using top_authors_keys by blast
  then have "a \<noteq> []"
    unfolding ap_def keys_group_by_author by simp
  then have "lookup_papers ap a = [p \<leftarrow> papers self. a \<in> set (authors p)]"
    unfolding ap_def using group_without_repeats [OF once]
    by (simp add: lookup_group_by_author)
  with some show ?thesis
    unfolding final by auto
qed

text \<open>
  Claim C4, at an input on which the code departs from it. A record that names an author
  twice enters the group of the author twice, so the node of the author counts two papers
  and twice the citations, where the author has one paper in the corpus: the corpus is
  one record with the authors A, A and B and 5 citations, and the node A carries
  \<^verbatim>\<open>paper_count\<close> 2 and \<^verbatim>\<open>citations\<close> 10. The loop of \<^verbatim>\<open>build_institution\<close> that
  sets the same attribute counts a record once, however often it names the institution.
\<close>

theorem repeated_author_counted_twice:
  "map_option (\<lambda>attrs. (attrs ''paper_count'', attrs ''citations''))
     (node (fst (build_coauthorship \<lparr>papers = repeated_author_corpus\<rparr> 50)) (u ''A''))
     = Some (Some 2, Some 10)
   \<and> length [p \<leftarrow> repeated_author_corpus. u ''A'' \<in> set (authors p)] = 1
   \<and> sum_list (map citations [p \<leftarrow> repeated_author_corpus. u ''A'' \<in> set (authors p)]) = 5"
  by (simp add: repeated_author_corpus_def graph_eval)

section \<open>Self-loops\<close>

text \<open>
  In the graphs of \<^verbatim>\<open>build_coauthorship\<close> and \<^verbatim>\<open>build_keywords\<close> the nodes are
  the ends of the edges: a node exists exactly when an edge stands at it.
\<close>

lemma edge_made_empty: "edge_made empty_graph"
  by (simp add: edge_made_def empty_graph_def)

lemma edge_made_add_edge: "edge_made G \<Longrightarrow> edge_made (add_edge G a b w)"
  unfolding edge_made_def
  by (auto simp add: adj_add_edge node_add_edge)

lemma adj_set_weight:
  "adj (set_weight G a b w) x y =
     (if (x, y) = (a, b) \<or> (x, y) = (b, a) then Some w else adj G x y)"
  by (auto simp add: set_weight_def Let_def)

lemma edge_made_set_weight:
  "edge_made G \<Longrightarrow> adj G a b \<noteq> None \<Longrightarrow> edge_made (set_weight G a b w)"
  unfolding edge_made_def
  by (auto simp add: adj_set_weight node_set_weight)

lemma edge_made_count_pair: "edge_made G \<Longrightarrow> edge_made (count_pair pr G)"
  by (cases pr) (auto simp add: count_pair_def edge_made_add_edge edge_made_set_weight
      split: option.splits)

lemma edge_made_fold: "edge_made G \<Longrightarrow> edge_made (fold count_pair prs G)"
  by (induction prs arbitrary: G) (simp_all add: edge_made_count_pair)

lemma edge_made_coauthor:
  "edge_made G \<Longrightarrow>
   edge_made (fold (\<lambda>paper. fold count_pair (pairs [a \<leftarrow> authors paper. a \<in> T])) ps G)"
  by (induction ps arbitrary: G) (simp_all add: edge_made_fold)

lemma coauthor_nodes_have_edges:
  "node (fst (build_coauthorship self top_n)) n \<noteq> None
     \<longleftrightarrow> (\<exists>m. has_edge (fst (build_coauthorship self top_n)) n m)"
  using edge_made_coauthor [OF edge_made_empty,
      of "set (map fst (top_authors top_n (group_by_author (papers self))))" "papers self"]
  by (simp add: build_coauthorship_def Let_def has_edge_def edge_made_def)

lemma keyword_edge_step_nodes:
  "\<exists>G2. (case set_node_attr (add_edge G a b w) a key x of
            Inl e \<Rightarrow> Inl e
          | Inr G1 \<Rightarrow> (case set_node_attr G1 b key y of Inl e \<Rightarrow> Inl e | Inr G2 \<Rightarrow> f G2))
         = f G2
       \<and> adj G2 = adj (add_edge G a b w)
       \<and> (\<forall>m. node G2 m \<noteq> None \<longleftrightarrow> node (add_edge G a b w) m \<noteq> None)"
proof -
  have na: "node (add_edge G a b w) a \<noteq> None" and nb: "node (add_edge G a b w) b \<noteq> None"
    by (auto simp add: node_add_edge)
  from set_node_attr_present [OF na, of key x] obtain G1 where
    G1: "set_node_attr (add_edge G a b w) a key x = Inr G1" "adj G1 = adj (add_edge G a b w)"
      "\<forall>m. node G1 m \<noteq> None \<longleftrightarrow> node (add_edge G a b w) m \<noteq> None"
    by blast
  from G1(3) nb have "node G1 b \<noteq> None"
    by blast
  from set_node_attr_present [OF this, of key y] obtain G2 where
    G2: "set_node_attr G1 b key y = Inr G2" "adj G2 = adj G1"
      "\<forall>m. node G2 m \<noteq> None \<longleftrightarrow> node G1 m \<noteq> None"
    by blast
  from G1 G2 show ?thesis
    by (intro exI [of _ G2]) simp
qed

lemma edge_made_cong:
  "edge_made G \<Longrightarrow> adj H = adj G \<Longrightarrow> (\<forall>m. node H m \<noteq> None \<longleftrightarrow> node G m \<noteq> None)
     \<Longrightarrow> edge_made H"
  by (simp add: edge_made_def)

lemma edge_made_keywords:
  "edge_made G \<Longrightarrow> \<exists>G1. add_keyword_edges freq items G = Inr G1 \<and> edge_made G1"
proof (induction items arbitrary: G)
  case Nil
  then show ?case by simp
next
  case (Cons it items)
  obtain a b w where it: "it = ((a, b), w)"
    by (cases it) auto
  show ?case
  proof (cases "2 \<le> w")
    case False
    with Cons show ?thesis
      unfolding it by simp
  next
    case True
    from keyword_edge_step_nodes [where G = G and a = a and b = b and w = "int w"
        and key = "''freq''" and x = "int (counter_get freq a)" and y = "int (counter_get freq b)"
        and f = "add_keyword_edges freq items"]
    obtain G2 where
      step: "add_keyword_edges freq (it # items) G = add_keyword_edges freq items G2"
      and adj2: "adj G2 = adj (add_edge G a b (int w))"
      and node2: "\<forall>m. node G2 m \<noteq> None \<longleftrightarrow> node (add_edge G a b (int w)) m \<noteq> None"
      unfolding it using True by auto
    from Cons.prems have "edge_made (add_edge G a b (int w))"
      by (rule edge_made_add_edge)
    from edge_made_cong [OF this adj2 node2] have "edge_made G2" .
    from Cons.IH [OF this] step show ?thesis
      by simp
  qed
qed

lemma keyword_nodes_have_edges:
  "\<exists>G. fst (build_keywords self min_freq) = Inr G
     \<and> (\<forall>n. node G n \<noteq> None \<longleftrightarrow> (\<exists>m. has_edge G n m))"
proof -
  from edge_made_keywords [OF edge_made_empty] obtain G where
    "fst (build_keywords self min_freq) = Inr G" "edge_made G"
    unfolding build_keywords_def Let_def fst_conv by blast
  then show ?thesis
    by (auto simp add: edge_made_def has_edge_def)
qed


text \<open>
  Claim C2, at an input where the code departs from it. A record whose author list names
  one author twice makes \<^verbatim>\<open>build_coauthorship\<close> add an edge from the author to
  itself, and a record whose institution list names one institution twice makes
  \<^verbatim>\<open>build_institution\<close> do the same: neither loop compares the two ends, as the loop of
  \<^verbatim>\<open>build_keywords\<close> does.
\<close>

theorem repeated_name_self_loop:
  "has_edge (fst (build_coauthorship
       \<lparr>papers = [new_paper\<lparr>title := u ''T'', authors := [u ''A'', u ''A'']\<rparr>]\<rparr> 50))
     (u ''A'') (u ''A'')
   \<and> has_edge (fst (build_institution
       \<lparr>papers = [new_paper\<lparr>title := u ''T'', all_institutions := [u ''X'', u ''X'']\<rparr>]\<rparr>))
     (u ''X'') (u ''X'')"
  by (simp add: graph_eval)

text \<open>
  Claim C5, at an input where the code departs from it. In a corpus of one record whose
  author list names one author twice, that author shares no record with any other
  author, and still gets a node: the only edge at the node is the loop of claim C2.
\<close>

theorem lone_author_has_node:
  "node (fst (build_coauthorship
       \<lparr>papers = [new_paper\<lparr>title := u ''T'', authors := [u ''A'', u ''A'']\<rparr>]\<rparr> 50))
     (u ''A'') \<noteq> None
   \<and> {b. has_edge (fst (build_coauthorship
       \<lparr>papers = [new_paper\<lparr>title := u ''T'', authors := [u ''A'', u ''A'']\<rparr>]\<rparr> 50))
     (u ''A'') b} = {u ''A''}"
  by (auto simp add: graph_eval split: if_splits)

end
